theory Spec2Isabelle
  imports Complex_Main
begin

section \<open>Decimal arithmetic\<close>

text \<open>
  The exchange keeps money, prices and quantities as Python \<^verbatim>\<open>decimal.Decimal\<close> values
  under the default context: 28 significant digits, rounding mode ROUND_HALF_EVEN. A finite
  Decimal denotes a rational number, so the model takes \<open>rat\<close> as the carrier and rounds the
  exact result of every arithmetic operation to 28 significant digits, as the context does.
  Comparisons (\<^verbatim>\<open>==\<close>, \<^verbatim>\<open><=\<close>, \<^verbatim>\<open>>\<close>) and the built-in \<^verbatim>\<open>min\<close> are exact and
  do not round. Division by zero raises (the context traps it). The exponent range of the
  context (\<open>10\<^sup>\<plusminus>\<^sup>9\<^sup>9\<^sup>9\<^sup>9\<^sup>9\<^sup>9\<close>) and the special values NaN and signed infinity are not
  modelled; the only infinity of the program, the bound of the last margin tier, is a
  constructor of its own below.
\<close>

type_synonym decimal = rat

definition prec :: int where
  "prec = 28"

function ndigits :: "int \<Rightarrow> int" where
  \<comment> \<open>the number of decimal digits of a positive integer\<close>
  "ndigits n = (if n \<le> 0 then 0 else 1 + ndigits (n div 10))"
  by pat_completeness auto
termination
  by (relation "measure nat") auto

declare ndigits.simps [simp del]

definition adjusted :: "rat \<Rightarrow> int" where
  \<comment> \<open>the exponent of the leading digit of a non-zero number: \<open>\<lfloor>log\<^sub>1\<^sub>0 \<bar>x\<bar>\<rfloor>\<close>\<close>
  "adjusted x =
     (let (n, d) = quotient_of \<bar>x\<bar>;
          k = ndigits n - ndigits d
      in if 10 powi k \<le> \<bar>x\<bar> then k else k - 1)"

definition round_half_even :: "rat \<Rightarrow> int" where
  "round_half_even y =
     (let f = \<lfloor>y\<rfloor>; r = y - of_int f
      in if r < 1 / 2 then f
         else if 1 / 2 < r then f + 1
         else if even f then f else f + 1)"

definition rnd :: "rat \<Rightarrow> decimal" where
  \<comment> \<open>rounding to \<open>prec\<close> significant digits, ties to even\<close>
  "rnd x =
     (if x = 0 then 0
      else let e = adjusted x - (prec - 1)
           in of_int (round_half_even (x / 10 powi e)) * 10 powi e)"

definition dadd :: "decimal \<Rightarrow> decimal \<Rightarrow> decimal" where
  "dadd a b = rnd (a + b)"

definition dsub :: "decimal \<Rightarrow> decimal \<Rightarrow> decimal" where
  "dsub a b = rnd (a - b)"

definition dmul :: "decimal \<Rightarrow> decimal \<Rightarrow> decimal" where
  "dmul a b = rnd (a * b)"

definition dabs :: "decimal \<Rightarrow> decimal" where
  "dabs a = rnd \<bar>a\<bar>"

definition unit_roundoff :: rat where
  \<comment> \<open>half a unit in the 28th significant digit, relative to the number rounded\<close>
  "unit_roundoff = 1 / (2 * 10 ^ 27)"

datatype error = DivisionByZero | InvalidOperation | ValueError | OutOfBoundsDatetime

definition ddiv :: "decimal \<Rightarrow> decimal \<Rightarrow> error + decimal" where
  "ddiv a b =
     (if b = 0 then (if a = 0 then Inl InvalidOperation else Inl DivisionByZero)
      else Inr (rnd (a / b)))"

section \<open>Price trajectory of a candle\<close>

text \<open>
  The candle's prices are floats that the functions only compare and copy; no float
  arithmetic is done on them, so they are modelled as reals.
\<close>

record kline =
  k_open :: real
  k_high :: real
  k_low :: real
  k_close :: real

definition get_price_trajectory :: "kline \<Rightarrow> real \<Rightarrow> (real \<times> real \<times> real) list" where
  "get_price_trajectory row prev_close =
     (let opn = k_open row; h = k_high row; l = k_low row; c = k_close row
      in if c \<ge> opn
         then [(prev_close, prev_close, prev_close), (opn, opn, opn), (l, opn, l), (h, h, l), (c, h, l)]
         else [(prev_close, prev_close, prev_close), (opn, opn, opn), (h, h, opn), (l, h, l), (c, h, l)])"

definition get_price_trajectory_vectorized ::
  "real \<Rightarrow> real \<Rightarrow> real \<Rightarrow> real \<Rightarrow> real \<Rightarrow> (real \<times> real \<times> real) list" where
  "get_price_trajectory_vectorized opn h l c prev_close =
     (if c \<ge> opn
      then [(prev_close, prev_close, prev_close), (opn, opn, opn), (l, opn, l), (h, h, l), (c, h, l)]
      else [(prev_close, prev_close, prev_close), (opn, opn, opn), (h, h, opn), (l, h, l), (c, h, l)])"

section \<open>Calendar dates\<close>

text \<open>
  \<^verbatim>\<open>process_fee_rebate\<close> works on pandas timestamps: \<^verbatim>\<open>pd.to_datetime(ts, unit='s')\<close>,
  \<^verbatim>\<open>Timestamp.replace(day=..., hour=0, minute=0, second=0, microsecond=0)\<close>, adding and
  subtracting \<^verbatim>\<open>pd.DateOffset(months=1)\<close>, and comparisons. A timestamp of whole seconds
  is modelled by its civil fields in the proleptic Gregorian calendar; comparison is
  lexicographic. pandas raises on a timestamp outside its nanosecond range
  (1677-09-21 00:12:44 to 2262-04-11 23:47:16 at whole seconds), and \<^verbatim>\<open>replace\<close> raises
  ValueError on a day the month does not have.
\<close>

record timestamp =
  ts_year :: int
  ts_month :: int
  ts_day :: int
  ts_secs :: int

definition is_leap :: "int \<Rightarrow> bool" where
  "is_leap y = (y mod 4 = 0 \<and> (y mod 100 \<noteq> 0 \<or> y mod 400 = 0))"

definition days_in_month :: "int \<Rightarrow> int \<Rightarrow> int" where
  "days_in_month y m =
     (if m = 2 then (if is_leap y then 29 else 28)
      else if m = 4 \<or> m = 6 \<or> m = 9 \<or> m = 11 then 30 else 31)"

definition civil_from_days :: "int \<Rightarrow> int \<times> int \<times> int" where
  \<comment> \<open>year, month and day of the day number \<open>z0\<close> counted from 1970-01-01\<close>
  "civil_from_days z0 =
     (let z = z0 + 719468;
          era = z div 146097;
          doe = z mod 146097;
          yoe = (doe - doe div 1460 + doe div 36524 - doe div 146096) div 365;
          y = yoe + era * 400;
          doy = doe - (365 * yoe + yoe div 4 - yoe div 100);
          mp = (5 * doy + 2) div 153;
          d = doy - (153 * mp + 2) div 5 + 1;
          m = (if mp < 10 then mp + 3 else mp - 9)
      in (if m \<le> 2 then y + 1 else y, m, d))"

definition ts_key :: "timestamp \<Rightarrow> int \<times> int \<times> int \<times> int" where
  "ts_key t = (ts_year t, ts_month t, ts_day t, ts_secs t)"

definition key_less :: "int \<times> int \<times> int \<times> int \<Rightarrow> int \<times> int \<times> int \<times> int \<Rightarrow> bool" where
  "key_less a b =
     (case a of (y1, m1, d1, s1) \<Rightarrow> case b of (y2, m2, d2, s2) \<Rightarrow>
        y1 < y2 \<or> (y1 = y2 \<and> (m1 < m2 \<or> (m1 = m2 \<and> (d1 < d2 \<or> (d1 = d2 \<and> s1 < s2))))))"

definition ts_less :: "timestamp \<Rightarrow> timestamp \<Rightarrow> bool" where
  "ts_less a b = key_less (ts_key a) (ts_key b)"

definition ts_ge :: "timestamp \<Rightarrow> timestamp \<Rightarrow> bool" where
  "ts_ge a b = (\<not> ts_less a b)"

definition in_bounds :: "timestamp \<Rightarrow> bool" where
  "in_bounds t =
     (\<not> key_less (ts_key t) (1677, 9, 21, 764) \<and> \<not> key_less (2262, 4, 11, 85636) (ts_key t))"

definition check_bounds :: "timestamp \<Rightarrow> error + timestamp" where
  "check_bounds t = (if in_bounds t then Inr t else Inl OutOfBoundsDatetime)"

definition to_datetime :: "int \<Rightarrow> error + timestamp" where
  \<comment> \<open>\<^verbatim>\<open>pd.to_datetime(timestamp, unit='s')\<close>\<close>
  "to_datetime ts =
     (case civil_from_days (ts div 86400) of (y, m, d) \<Rightarrow>
        check_bounds \<lparr>ts_year = y, ts_month = m, ts_day = d, ts_secs = ts mod 86400\<rparr>)"

definition replace_day :: "timestamp \<Rightarrow> int \<Rightarrow> error + timestamp" where
  \<comment> \<open>\<^verbatim>\<open>t.replace(day=d, hour=0, minute=0, second=0, microsecond=0)\<close>\<close>
  "replace_day t d =
     (if 1 \<le> d \<and> d \<le> days_in_month (ts_year t) (ts_month t)
      then check_bounds (t\<lparr>ts_day := d, ts_secs := 0\<rparr>)
      else Inl ValueError)"

definition shift_months :: "timestamp \<Rightarrow> int \<Rightarrow> timestamp" where
  \<comment> \<open>the month moved by \<open>k\<close>, the day clipped to the length of the new month\<close>
  "shift_months t k =
     (let m0 = ts_month t - 1 + k;
          y = ts_year t + m0 div 12;
          m = m0 mod 12 + 1
      in t\<lparr>ts_year := y, ts_month := m, ts_day := min (ts_day t) (days_in_month y m)\<rparr>)"

definition add_months :: "timestamp \<Rightarrow> int \<Rightarrow> error + timestamp" where
  \<comment> \<open>\<^verbatim>\<open>t + pd.DateOffset(months=k)\<close>\<close>
  "add_months t k = check_bounds (shift_months t k)"

section \<open>Volatility monitor\<close>

text \<open>
  The monitor receives the candle's high, low and close as floats. The model takes them as
  reals: float rounding is not modelled, the structure of the computation is.
\<close>

record volatility_monitor =
  atr_period :: int
  price_history :: "(int \<times> real \<times> real \<times> real) list"
  atr_values :: "real list"

definition volatility_monitor_init :: "int \<Rightarrow> volatility_monitor" where
  "volatility_monitor_init period = \<lparr>atr_period = period, price_history = [], atr_values = []\<rparr>"

definition true_range_at :: "(int \<times> real \<times> real \<times> real) list \<Rightarrow> nat \<Rightarrow> real" where
  \<comment> \<open>the body of the loop of \<^verbatim>\<open>_calculate_atr\<close> at index \<open>i \<ge> 1\<close>\<close>
  "true_range_at hist i =
     (case hist ! i of (_, c_high, c_low, _) \<Rightarrow>
      case hist ! (i - 1) of (_, _, _, p_close) \<Rightarrow>
        let tr1 = c_high - c_low;
            tr2 = \<bar>c_high - p_close\<bar>;
            tr3 = \<bar>c_low - p_close\<bar>
        in max (max tr1 tr2) tr3)"

definition calculate_atr :: "volatility_monitor \<Rightarrow> volatility_monitor" where
  "calculate_atr m =
     (if length (price_history m) < 2 then m
      else let true_ranges = map (true_range_at (price_history m)) [1 ..< length (price_history m)]
           in if true_ranges \<noteq> []
              then let atr = foldl (+) 0 true_ranges / real (length true_ranges);
                       vals = atr_values m @ [atr]
                   in m\<lparr>atr_values := (if length vals > 100 then tl vals else vals)\<rparr>
              else m)"

definition update_price :: "volatility_monitor \<Rightarrow> int \<Rightarrow> real \<Rightarrow> real \<Rightarrow> real \<Rightarrow> volatility_monitor" where
  "update_price m timestamp high low close =
     (let hist = price_history m @ [(timestamp, high, low, close)];
          hist' = (if int (length hist) > atr_period m + 1 then tl hist else hist);
          m' = m\<lparr>price_history := hist'\<rparr>
      in if length hist' \<ge> 2 then calculate_atr m' else m')"

section \<open>The exchange\<close>

subsection \<open>Margin tiers\<close>

datatype bound = Finite rat | Infinity

fun le_bound :: "decimal \<Rightarrow> bound \<Rightarrow> bool" where
  "le_bound v (Finite b) = (v \<le> b)"
| "le_bound v Infinity = True"

type_synonym tier = "bound \<times> int \<times> decimal \<times> decimal"

definition ETH_USDC_TIERS :: "tier list" where
  "ETH_USDC_TIERS =
     [(Finite 50000, 125, 4 / 1000, 0),
      (Finite 500000, 100, 5 / 1000, 50),
      (Finite 1000000, 75, 65 / 10000, 800),
      (Finite 5000000, 50, 1 / 100, 4300),
      (Finite 50000000, 20, 2 / 100, 54300),
      (Finite 100000000, 10, 5 / 100, 1554300),
      (Finite 150000000, 5, 1 / 10, 6554300),
      (Finite 300000000, 4, 125 / 1000, 10304300),
      (Finite 400000000, 3, 15 / 100, 17804300),
      (Finite 500000000, 2, 25 / 100, 57804300),
      (Infinity, 1, 5 / 10, 182804300)]"

subsection \<open>State\<close>

type_synonym order = "decimal \<times> decimal \<times> string"

record trade_record =
  tr_timestamp :: int
  tr_side :: string
  tr_amount :: decimal
  tr_price :: decimal
  tr_fee :: decimal
  tr_pnl :: decimal
  tr_leverage :: int

record liquidation_event =
  liq_timestamp :: int
  liq_equity :: decimal
  liq_price :: decimal

record exchange =
  balance :: decimal
  margin_balance :: decimal
  long_position :: decimal
  short_position :: decimal
  long_entry_price :: decimal
  short_entry_price :: decimal
  base_leverage :: int
  current_leverage :: int
  current_price :: decimal
  active_buy_orders :: "order list"
  active_sell_orders :: "order list"
  trade_history :: "trade_record list"
  equity_history :: "(int \<times> decimal) list"
  liquidation_events :: "liquidation_event list"
  order_id_counter :: int
  total_fees_paid :: decimal
  maker_fee :: decimal
  taker_fee :: decimal
  use_fee_rebate :: bool
  last_payout_date :: "timestamp option"
  current_cycle_fees :: decimal
  rebate_payout_day :: int
  rebate_rate :: decimal
  monitor :: "volatility_monitor option"

subsection \<open>Equity, notional and margin\<close>

definition get_unrealized_pnl :: "exchange \<Rightarrow> decimal" where
  "get_unrealized_pnl s =
     (let pnl = 0;
          pnl = (if long_position s > 0
                 then dadd pnl (dmul (long_position s) (dsub (current_price s) (long_entry_price s)))
                 else pnl);
          pnl = (if short_position s > 0
                 then dadd pnl (dmul (short_position s) (dsub (short_entry_price s) (current_price s)))
                 else pnl)
      in pnl)"

definition get_equity :: "exchange \<Rightarrow> decimal" where
  "get_equity s = dadd (balance s) (get_unrealized_pnl s)"

definition get_net_position :: "exchange \<Rightarrow> decimal" where
  "get_net_position s = dsub (long_position s) (short_position s)"

definition get_position_value :: "exchange \<Rightarrow> decimal" where
  "get_position_value s =
     (let long_value = dmul (long_position s) (current_price s);
          short_value = dmul (short_position s) (current_price s)
      in dadd long_value short_value)"

definition get_net_position_value :: "exchange \<Rightarrow> decimal" where
  "get_net_position_value s = dmul (dabs (get_net_position s)) (current_price s)"

fun leverage_tier_scan :: "decimal \<Rightarrow> tier list \<Rightarrow> tier option" where
  \<comment> \<open>the loop of \<^verbatim>\<open>get_current_leverage_tier\<close>\<close>
  "leverage_tier_scan v [] = None"
| "leverage_tier_scan v ((threshold, max_leverage, mm_rate, fixed_amount) # rest) =
     (if le_bound v threshold then Some (threshold, max_leverage, mm_rate, fixed_amount)
      else leverage_tier_scan v rest)"

definition get_current_leverage_tier :: "exchange \<Rightarrow> tier" where
  "get_current_leverage_tier s =
     (case leverage_tier_scan (get_position_value s) ETH_USDC_TIERS of
        Some t \<Rightarrow> t
      | None \<Rightarrow> last ETH_USDC_TIERS)"

definition get_current_max_leverage :: "exchange \<Rightarrow> int" where
  "get_current_max_leverage s =
     (case get_current_leverage_tier s of (_, max_leverage, _, _) \<Rightarrow> max_leverage)"

definition get_used_margin :: "exchange \<Rightarrow> error + decimal" where
  "get_used_margin s =
     (let current_max_leverage = get_current_max_leverage s;
          effective_leverage = min current_max_leverage (base_leverage s)
      in if effective_leverage = 0 then Inr 0
         else let long_value = dmul (long_position s) (long_entry_price s);
                  short_value = dmul (short_position s) (short_entry_price s);
                  total_position_value = dadd long_value short_value
              in ddiv total_position_value (of_int effective_leverage))"

definition update_current_leverage :: "exchange \<Rightarrow> exchange" where
  \<comment> \<open>the console message on a change of leverage is not part of the state\<close>
  "update_current_leverage s =
     (let current_max_leverage = get_current_max_leverage s;
          new_leverage = min current_max_leverage (base_leverage s)
      in s\<lparr>current_leverage := new_leverage\<rparr>)"

fun maintenance_margin_scan :: "decimal \<Rightarrow> tier list \<Rightarrow> decimal option" where
  \<comment> \<open>the loop of \<^verbatim>\<open>get_maintenance_margin\<close>\<close>
  "maintenance_margin_scan v [] = None"
| "maintenance_margin_scan v ((threshold, max_leverage, mm_rate, maintenance_amount) # rest) =
     (if le_bound v threshold then Some (dsub (dmul v mm_rate) maintenance_amount)
      else maintenance_margin_scan v rest)"

definition get_maintenance_margin :: "exchange \<Rightarrow> decimal" where
  "get_maintenance_margin s =
     (case maintenance_margin_scan (get_net_position_value s) ETH_USDC_TIERS of
        Some m \<Rightarrow> m
      | None \<Rightarrow> 0)"

subsection \<open>Fee rebate\<close>

definition process_fee_rebate :: "exchange \<Rightarrow> int \<Rightarrow> error + exchange" where
  "process_fee_rebate s timestamp =
     (if \<not> use_fee_rebate s then Inr s
      else if timestamp > 2147483647 then Inr s
      else case to_datetime timestamp of
        Inl _ \<Rightarrow> Inr s
      | Inr current_date \<Rightarrow>
          (case last_payout_date s of
             None \<Rightarrow>
               (case replace_day current_date (rebate_payout_day s) of
                  Inl e \<Rightarrow> Inl e
                | Inr start_date_payout \<Rightarrow>
                    if ts_less current_date start_date_payout
                    then (case add_months start_date_payout (- 1) of
                            Inl e \<Rightarrow> Inl e
                          | Inr d \<Rightarrow> Inr (s\<lparr>last_payout_date := Some d\<rparr>))
                    else Inr (s\<lparr>last_payout_date := Some start_date_payout\<rparr>))
           | Some last_date \<Rightarrow>
               (case add_months last_date 1 of
                  Inl e \<Rightarrow> Inl e
                | Inr next_payout_date \<Rightarrow>
                    if ts_ge current_date next_payout_date
                    then let rebate_amount = dmul (current_cycle_fees s) (rebate_rate s);
                             s' = (if rebate_amount > 0
                                   then s\<lparr>balance := dadd (balance s) rebate_amount,
                                          current_cycle_fees := 0\<rparr>
                                   else s)
                         in Inr (s'\<lparr>last_payout_date := Some next_payout_date\<rparr>)
                    else Inr s)))"

definition charge_fee :: "exchange \<Rightarrow> decimal \<Rightarrow> int \<Rightarrow> error + exchange" where
  \<comment> \<open>\<^verbatim>\<open>total_fees_paid += fee\<close>, then, with the rebate enabled,
      \<^verbatim>\<open>current_cycle_fees += fee; process_fee_rebate(timestamp)\<close>\<close>
  "charge_fee s fee timestamp =
     (let s1 = s\<lparr>total_fees_paid := dadd (total_fees_paid s) fee\<rparr>
      in if use_fee_rebate s1
         then process_fee_rebate (s1\<lparr>current_cycle_fees := dadd (current_cycle_fees s1) fee\<rparr>) timestamp
         else Inr s1)"

subsection \<open>Trades\<close>

definition apply_fill :: "exchange \<Rightarrow> string \<Rightarrow> decimal \<Rightarrow> decimal \<Rightarrow> error + (exchange \<times> decimal)" where
  \<comment> \<open>the if/elif chain of \<^verbatim>\<open>execute_fast_trade\<close> on the side; returns the state and the
      realised profit\<close>
  "apply_fill s side amount price =
     (if side = ''buy_long'' then
        (if long_position s = 0
         then Inr (s\<lparr>long_entry_price := price,
                     long_position := dadd (long_position s) amount\<rparr>, 0)
         else let total_value = dadd (dmul (long_position s) (long_entry_price s)) (dmul amount price);
                  position = dadd (long_position s) amount
              in case ddiv total_value position of
                   Inl e \<Rightarrow> Inl e
                 | Inr entry \<Rightarrow>
                     Inr (s\<lparr>long_entry_price := entry, long_position := dadd position amount\<rparr>, 0))
      else if side = ''sell_short'' then
        (if short_position s = 0
         then Inr (s\<lparr>short_entry_price := price,
                     short_position := dadd (short_position s) amount\<rparr>, 0)
         else let total_value = dadd (dmul (short_position s) (short_entry_price s)) (dmul amount price);
                  position = dadd (short_position s) amount
              in case ddiv total_value position of
                   Inl e \<Rightarrow> Inl e
                 | Inr entry \<Rightarrow>
                     Inr (s\<lparr>short_entry_price := entry, short_position := dadd position amount\<rparr>, 0))
      else if side = ''sell_long'' \<and> long_position s > 0 then
        (let trade_amount = min amount (long_position s);
             pnl = dmul trade_amount (dsub price (long_entry_price s));
             position = dsub (long_position s) trade_amount
         in Inr (s\<lparr>balance := dadd (balance s) pnl,
                    long_position := position,
                    long_entry_price := (if position = 0 then 0 else long_entry_price s)\<rparr>, pnl))
      else if side = ''buy_short'' \<and> short_position s > 0 then
        (let trade_amount = min amount (short_position s);
             pnl = dmul trade_amount (dsub (short_entry_price s) price);
             position = dsub (short_position s) trade_amount
         in Inr (s\<lparr>balance := dadd (balance s) pnl,
                    short_position := position,
                    short_entry_price := (if position = 0 then 0 else short_entry_price s)\<rparr>, pnl))
      else Inr (s, 0))"

definition execute_fast_trade :: "exchange \<Rightarrow> string \<Rightarrow> decimal \<Rightarrow> decimal \<Rightarrow> int \<Rightarrow> error + exchange" where
  "execute_fast_trade s side amount price timestamp =
     (let fee = dmul (dmul amount price) (maker_fee s)
      in case charge_fee (s\<lparr>balance := dsub (balance s) fee\<rparr>) fee timestamp of
           Inl e \<Rightarrow> Inl e
         | Inr s1 \<Rightarrow>
             (case apply_fill s1 side amount price of
                Inl e \<Rightarrow> Inl e
              | Inr (s2, pnl) \<Rightarrow>
                  let s3 = update_current_leverage s2;
                      trade = \<lparr>tr_timestamp = timestamp, tr_side = side, tr_amount = amount,
                               tr_price = price, tr_fee = fee, tr_pnl = pnl,
                               tr_leverage = current_leverage s3\<rparr>
                  in Inr (s3\<lparr>trade_history := trade_history s3 @ [trade],
                             order_id_counter := order_id_counter s3 + 1\<rparr>)))"

subsection \<open>Order matching\<close>





subsection \<open>Liquidation\<close>

definition force_close_long :: "exchange \<Rightarrow> decimal \<Rightarrow> decimal \<Rightarrow> int \<Rightarrow> error + exchange" where
  \<comment> \<open>the block \<^verbatim>\<open>if self.long_position > 0: ...\<close> of \<^verbatim>\<open>check_and_handle_liquidation\<close>\<close>
  "force_close_long s price fee_rate timestamp =
     (if long_position s > 0 then
        (let pnl = dmul (long_position s) (dsub price (long_entry_price s));
             fee = dmul (dmul (long_position s) price) fee_rate
         in case charge_fee (s\<lparr>balance := dadd (balance s) (dsub pnl fee)\<rparr>) fee timestamp of
              Inl e \<Rightarrow> Inl e
            | Inr s' \<Rightarrow> Inr (s'\<lparr>long_position := 0, long_entry_price := 0\<rparr>))
      else Inr s)"

definition force_close_short :: "exchange \<Rightarrow> decimal \<Rightarrow> decimal \<Rightarrow> int \<Rightarrow> error + exchange" where
  \<comment> \<open>the block \<^verbatim>\<open>if self.short_position > 0: ...\<close> of \<^verbatim>\<open>check_and_handle_liquidation\<close>\<close>
  "force_close_short s price fee_rate timestamp =
     (if short_position s > 0 then
        (let pnl = dmul (short_position s) (dsub (short_entry_price s) price);
             fee = dmul (dmul (short_position s) price) fee_rate
         in case charge_fee (s\<lparr>balance := dadd (balance s) (dsub pnl fee)\<rparr>) fee timestamp of
              Inl e \<Rightarrow> Inl e
            | Inr s' \<Rightarrow> Inr (s'\<lparr>short_position := 0, short_entry_price := 0\<rparr>))
      else Inr s)"

definition check_and_handle_liquidation :: "exchange \<Rightarrow> int \<Rightarrow> error + (exchange \<times> bool)" where
  "check_and_handle_liquidation s timestamp =
     (if long_position s = 0 \<and> short_position s = 0 then Inr (s, False)
      else let equity = get_equity s;
               maintenance_margin = get_maintenance_margin s
           in if equity \<le> maintenance_margin \<and> equity > 0 then
                (let liquidation_price = current_price s;
                     s1 = s\<lparr>liquidation_events := liquidation_events s @
                              [\<lparr>liq_timestamp = timestamp, liq_equity = equity,
                                liq_price = liquidation_price\<rparr>],
                            active_buy_orders := [], active_sell_orders := []\<rparr>;
                     taker_fee_rate = taker_fee s1
                 in case force_close_long s1 liquidation_price taker_fee_rate timestamp of
                      Inl e \<Rightarrow> Inl e
                    | Inr s2 \<Rightarrow>
                        (case force_close_short s2 liquidation_price taker_fee_rate timestamp of
                           Inl e \<Rightarrow> Inl e
                         | Inr s3 \<Rightarrow> Inr (s3\<lparr>balance := 0\<rparr>, True)))
              else Inr (s, False))"

subsection \<open>Construction\<close>

definition initial_exchange :: "decimal \<Rightarrow> exchange" where
  \<comment> \<open>\<^verbatim>\<open>FastPerpetualExchange.__init__\<close> under the configuration tables of the module\<close>
  "initial_exchange initial_balance =
     \<lparr>balance = initial_balance, margin_balance = initial_balance,
      long_position = 0, short_position = 0, long_entry_price = 0, short_entry_price = 0,
      base_leverage = 125, current_leverage = 125, current_price = 0,
      active_buy_orders = [], active_sell_orders = [], trade_history = [],
      equity_history = [], liquidation_events = [], order_id_counter = 1,
      total_fees_paid = 0, maker_fee = 0, taker_fee = 5 / 10000,
      use_fee_rebate = False, last_payout_date = None, current_cycle_fees = 0,
      rebate_payout_day = 19, rebate_rate = 30 / 100,
      monitor = Some (volatility_monitor_init (24 * 60))\<rparr>"

subsection \<open>Order on tier bounds\<close>

fun bound_less :: "bound \<Rightarrow> bound \<Rightarrow> bool" where
  "bound_less (Finite a) (Finite b) = (a < b)"
| "bound_less (Finite a) Infinity = True"
| "bound_less Infinity b = False"

section \<open>Specification of the average true range\<close>

text \<open>
  The following definitions state what the specification says of the volatility monitor; the
  theorems compare them with \<open>update_price\<close> as the source computes it.
\<close>

definition true_range :: "(int \<times> real \<times> real \<times> real) \<Rightarrow> (int \<times> real \<times> real \<times> real) \<Rightarrow> real" where
  "true_range previous current =
     (case previous of (_, _, _, p_close) \<Rightarrow>
      case current of (_, c_high, c_low, _) \<Rightarrow>
        Max {c_high - c_low, \<bar>c_high - p_close\<bar>, \<bar>c_low - p_close\<bar>})"

definition average_true_range :: "(int \<times> real \<times> real \<times> real) list \<Rightarrow> real" where
  "average_true_range hist =
     sum_list (map (\<lambda>(previous, current). true_range previous current) (zip hist (tl hist)))
       / real (length hist - 1)"

definition monitor_run :: "int \<Rightarrow> (int \<times> real \<times> real \<times> real) list \<Rightarrow> volatility_monitor" where
  \<comment> \<open>the monitor after the constructor and a sequence of calls of \<open>update_price\<close>\<close>
  "monitor_run period updates =
     foldl (\<lambda>m (timestamp, high, low, close). update_price m timestamp high low close)
       (volatility_monitor_init period) updates"

definition monitor_invariant :: "volatility_monitor \<Rightarrow> bool" where
  "monitor_invariant m =
     (int (length (price_history m)) \<le> atr_period m + 1 \<and> length (atr_values m) \<le> 100)"

section \<open>Specification of the rebate cycle\<close>

text \<open>
  The anchor of the payout cycle as the specification words it: the payout day of the
  current month, or of the month before when the current date precedes it.
\<close>

definition payout_anchor :: "timestamp \<Rightarrow> int \<Rightarrow> timestamp" where
  "payout_anchor current_date payout_day =
     (let this_month = current_date\<lparr>ts_day := payout_day, ts_secs := 0\<rparr>
      in if ts_less current_date this_month then shift_months this_month (- 1) else this_month)"

definition month_ok :: "timestamp \<Rightarrow> bool" where
  "month_ok t = (1 \<le> ts_month t \<and> ts_month t \<le> 12)"

definition rebate_dates_ok :: "exchange \<Rightarrow> int \<Rightarrow> bool" where
  \<comment> \<open>dates on which \<open>process_fee_rebate\<close> does not raise: the current date, when pandas
      decodes it, lies in the years 1678 to 2261; before the first call the payout day exists
      in the current month; afterwards the anchor is a representable date\<close>
  "rebate_dates_ok s timestamp =
     (case to_datetime timestamp of
        Inl _ \<Rightarrow> True
      | Inr current_date \<Rightarrow>
          1678 \<le> ts_year current_date \<and> ts_year current_date \<le> 2261 \<and> month_ok current_date \<and>
          (case last_payout_date s of
             None \<Rightarrow>
               1 \<le> rebate_payout_day s \<and>
               rebate_payout_day s \<le> days_in_month (ts_year current_date) (ts_month current_date)
           | Some last_date \<Rightarrow>
               in_bounds last_date \<and> ts_year last_date \<le> 2261 \<and> month_ok last_date))"

section \<open>Specification of fills, liquidation and matching\<close>

text \<open>
  Predicates and functions that word the claims: the state invariant of non-negative
  quantities, the dates for which the rebate bookkeeping does not raise, the realised profit
  of a fill, the liquidation condition, and the order a trade record stands for.
\<close>

definition rebate_safe :: "exchange \<Rightarrow> int \<Rightarrow> bool" where
  "rebate_safe s timestamp = (\<not> use_fee_rebate s \<or> rebate_dates_ok s timestamp)"

definition positions_nonneg :: "exchange \<Rightarrow> bool" where
  "positions_nonneg s = (0 \<le> long_position s \<and> 0 \<le> short_position s)"

definition rebate_frame :: "exchange \<Rightarrow> exchange \<Rightarrow> bool" where
  \<comment> \<open>\<open>s'\<close> differs from \<open>s\<close> at most in the fields the fee bookkeeping writes: the balance,
      the fee totals and the anchor of the rebate cycle\<close>
  "rebate_frame s s' =
     (margin_balance s' = margin_balance s \<and>
      long_position s' = long_position s \<and> short_position s' = short_position s \<and>
      long_entry_price s' = long_entry_price s \<and> short_entry_price s' = short_entry_price s \<and>
      base_leverage s' = base_leverage s \<and> current_leverage s' = current_leverage s \<and>
      current_price s' = current_price s \<and>
      active_buy_orders s' = active_buy_orders s \<and> active_sell_orders s' = active_sell_orders s \<and>
      trade_history s' = trade_history s \<and> equity_history s' = equity_history s \<and>
      liquidation_events s' = liquidation_events s \<and> order_id_counter s' = order_id_counter s \<and>
      maker_fee s' = maker_fee s \<and> taker_fee s' = taker_fee s \<and>
      use_fee_rebate s' = use_fee_rebate s \<and> rebate_payout_day s' = rebate_payout_day s \<and>
      rebate_rate s' = rebate_rate s \<and> monitor s' = monitor s)"

definition fill_frame :: "exchange \<Rightarrow> exchange \<Rightarrow> bool" where
  \<comment> \<open>\<open>s'\<close> differs from \<open>s\<close> at most in the balance, the positions and the entry prices\<close>
  "fill_frame s s' =
     (margin_balance s' = margin_balance s \<and>
      base_leverage s' = base_leverage s \<and> current_leverage s' = current_leverage s \<and>
      current_price s' = current_price s \<and>
      active_buy_orders s' = active_buy_orders s \<and> active_sell_orders s' = active_sell_orders s \<and>
      trade_history s' = trade_history s \<and> equity_history s' = equity_history s \<and>
      liquidation_events s' = liquidation_events s \<and> order_id_counter s' = order_id_counter s \<and>
      total_fees_paid s' = total_fees_paid s \<and>
      maker_fee s' = maker_fee s \<and> taker_fee s' = taker_fee s \<and>
      use_fee_rebate s' = use_fee_rebate s \<and> last_payout_date s' = last_payout_date s \<and>
      current_cycle_fees s' = current_cycle_fees s \<and>
      rebate_payout_day s' = rebate_payout_day s \<and>
      rebate_rate s' = rebate_rate s \<and> monitor s' = monitor s)"

definition realized_pnl :: "exchange \<Rightarrow> string \<Rightarrow> decimal \<Rightarrow> decimal \<Rightarrow> decimal" where
  \<comment> \<open>the realised profit of a fill on the state before it\<close>
  "realized_pnl s side qty price =
     (if side = ''sell_long'' \<and> long_position s > 0
      then dmul (min qty (long_position s)) (dsub price (long_entry_price s))
      else if side = ''buy_short'' \<and> short_position s > 0
      then dmul (min qty (short_position s)) (dsub (short_entry_price s) price)
      else 0)"

definition realizes :: "exchange \<Rightarrow> string \<Rightarrow> bool" where
  \<comment> \<open>the fill closes or reduces a position that is held\<close>
  "realizes s side =
     (side = ''sell_long'' \<and> long_position s > 0 \<or> side = ''buy_short'' \<and> short_position s > 0)"

definition liquidation_due :: "exchange \<Rightarrow> bool" where
  \<comment> \<open>a position is open and \<open>0 < equity \<le> maintenance margin\<close>\<close>
  "liquidation_due s =
     ((long_position s \<noteq> 0 \<or> short_position s \<noteq> 0) \<and>
      0 < get_equity s \<and> get_equity s \<le> get_maintenance_margin s)"



section \<open>Example states\<close>

text \<open>
  Concrete states on which the theorems below are instantiated and the code is evaluated.
\<close>

definition used_margin_example :: exchange where
  \<comment> \<open>one unit long, opened at 100, marked at 200\<close>
  "used_margin_example =
     (initial_exchange 700)\<lparr>long_position := 1, long_entry_price := 100, current_price := 200\<rparr>"

definition double_add_example :: exchange where
  \<comment> \<open>a fresh exchange with 700 of balance, marked at 3000\<close>
  "double_add_example = (initial_exchange 700)\<lparr>current_price := 3000\<rparr>"

definition rebate_first_example :: exchange where
  "rebate_first_example = (initial_exchange 700)\<lparr>use_fee_rebate := True, current_cycle_fees := 10\<rparr>"

definition rebate_day31_example :: exchange where
  \<comment> \<open>the rebate enabled with payout day 31, before the first call\<close>
  "rebate_day31_example =
     (initial_exchange 700)\<lparr>use_fee_rebate := True, rebate_payout_day := 31\<rparr>"

definition rebate_due_example :: exchange where
  "rebate_due_example =
     (initial_exchange 700)\<lparr>use_fee_rebate := True, current_cycle_fees := 10,
        last_payout_date := Some \<lparr>ts_year = 2021, ts_month = 1, ts_day = 19, ts_secs = 0\<rparr>\<rparr>"

definition rebate_zero_rate_example :: exchange where
  "rebate_zero_rate_example =
     (initial_exchange 700)\<lparr>use_fee_rebate := True, current_cycle_fees := 5, rebate_rate := 0,
        last_payout_date := Some \<lparr>ts_year = 2021, ts_month = 1, ts_day = 19, ts_secs = 0\<rparr>\<rparr>"

definition close_long_example :: exchange where
  "close_long_example =
     (initial_exchange 700)\<lparr>long_position := 2, long_entry_price := 3000,
                             current_price := 3100, maker_fee := 2 / 10000\<rparr>"

definition liquidation_example :: exchange where
  "liquidation_example =
     (initial_exchange 700)\<lparr>long_position := 1, long_entry_price := 3000, current_price := 2309,
        active_buy_orders := [(2300, 1, ''buy_long'')],
        active_sell_orders := [(3100, 1, ''sell_long'')]\<rparr>"


section \<open>Properties\<close>

subsection \<open>Rounding keeps the sign\<close>

text \<open>
  Rounding to 28 significant digits never turns a non-zero number into zero and never
  changes its sign: the scaled coefficient has 28 digits, so its absolute value is at least 1.
\<close>

lemma ndigits_bounds:
  "0 < n \<Longrightarrow> 1 \<le> ndigits n \<and> 10 ^ nat (ndigits n - 1) \<le> n \<and> n < 10 ^ nat (ndigits n)"
proof (induction n rule: ndigits.induct)
  case (1 n)
  show ?case
  proof (cases "n div 10 = 0")
    case True
    then have "n < 10" using 1(2) by linarith
    moreover have "ndigits n = 1"
      using 1(2) True by (subst ndigits.simps, subst ndigits.simps) simp
    ultimately show ?thesis using 1(2) by simp
  next
    case False
    then have pos: "0 < n div 10" using 1(2) by (simp add: pos_imp_zdiv_pos_iff)
    have ih: "1 \<le> ndigits (n div 10)" "10 ^ nat (ndigits (n div 10) - 1) \<le> n div 10"
      "n div 10 < 10 ^ nat (ndigits (n div 10))"
      using 1(1) 1(2) pos by simp_all
    have eq: "ndigits n = 1 + ndigits (n div 10)"
      using 1(2) by (subst ndigits.simps) simp
    have e1: "nat (ndigits n - 1) = Suc (nat (ndigits (n div 10) - 1))"
      using eq ih(1) by simp
    have e2: "nat (ndigits n) = Suc (nat (ndigits (n div 10)))"
      using eq ih(1) by simp
    have "10 * 10 ^ nat (ndigits (n div 10) - 1) \<le> n" using ih(2) by linarith
    moreover have "n < 10 * 10 ^ nat (ndigits (n div 10))" using ih(3) by linarith
    ultimately show ?thesis using eq ih(1) e1 e2 by simp
  qed
qed

lemma adjusted_le:
  assumes "x \<noteq> 0"
  shows "10 powi adjusted x \<le> \<bar>x\<bar>"
proof -
  obtain n d where q: "quotient_of \<bar>x\<bar> = (n, d)" by (cases "quotient_of \<bar>x\<bar>")
  have d: "0 < d" using q quotient_of_denom_pos by blast
  have xe: "\<bar>x\<bar> = of_int n / of_int d" using q quotient_of_div by blast
  have "0 < \<bar>x\<bar>" using assms by simp
  then have n: "0 < n" using xe d by (simp add: zero_less_divide_iff)
  define k where "k = ndigits n - ndigits d"
  have adj: "adjusted x = (if 10 powi k \<le> \<bar>x\<bar> then k else k - 1)"
    by (simp add: adjusted_def q k_def Let_def)
  have bn: "10 ^ nat (ndigits n - 1) \<le> n" "1 \<le> ndigits n" using ndigits_bounds[OF n] by simp_all
  have bd: "d < 10 ^ nat (ndigits d)" "1 \<le> ndigits d" using ndigits_bounds[OF d] by simp_all
  have km: "k - 1 = (ndigits n - 1) - ndigits d" by (simp add: k_def)
  have "(10::rat) powi (k - 1) = 10 powi (ndigits n - 1) / 10 powi (ndigits d)"
    unfolding km by (rule power_int_diff) simp
  also have "\<dots> = 10 ^ nat (ndigits n - 1) / 10 ^ nat (ndigits d)"
    using bn(2) bd(2) by (simp add: power_int_def)
  also have "\<dots> \<le> of_int n / of_int d"
  proof -
    have a: "(10::rat) ^ nat (ndigits n - 1) \<le> of_int n"
    proof -
      have "(of_int (10 ^ nat (ndigits n - 1)) :: rat) \<le> of_int n"
        using bn(1) by (simp only: of_int_le_iff)
      then show ?thesis by simp
    qed
    have b: "(of_int d :: rat) \<le> 10 ^ nat (ndigits d)"
    proof -
      have "d \<le> 10 ^ nat (ndigits d)" using bd(1) by simp
      then have "(of_int d :: rat) \<le> of_int (10 ^ nat (ndigits d))"
        by (simp only: of_int_le_iff)
      then show ?thesis by simp
    qed
    have c: "(0::rat) < of_int d" using d by simp
    have z: "(0::rat) \<le> of_int n" using n by simp
    show ?thesis by (rule frac_le[OF z a c b])
  qed
  finally have "10 powi (k - 1) \<le> \<bar>x\<bar>" using xe by simp
  then show ?thesis using adj by simp
qed

lemma round_half_even_ge: "1 \<le> y \<Longrightarrow> 1 \<le> round_half_even y"
  by (auto simp: round_half_even_def Let_def)

lemma round_half_even_le: "y \<le> - 1 \<Longrightarrow> round_half_even y \<le> - 1"
proof -
  assume y: "y \<le> - 1"
  have f: "\<lfloor>y\<rfloor> \<le> - 1" using y by (simp add: floor_le_iff)
  show ?thesis
  proof (cases "\<lfloor>y\<rfloor> = - 1")
    case True
    have "of_int \<lfloor>y\<rfloor> \<le> y" by (rule of_int_floor_le)
    then have "y = - 1" using y True by simp
    then have "y - of_int \<lfloor>y\<rfloor> = 0" using True by simp
    then show ?thesis using True by (simp add: round_half_even_def Let_def)
  next
    case False
    then have "\<lfloor>y\<rfloor> \<le> - 2" using f by linarith
    moreover have "round_half_even y \<le> \<lfloor>y\<rfloor> + 1"
      by (simp add: round_half_even_def Let_def)
    ultimately show ?thesis by linarith
  qed
qed

lemma scaled_ge_one:
  assumes "x \<noteq> 0"
  shows "1 \<le> \<bar>x\<bar> / 10 powi (adjusted x - (prec - 1))"
proof -
  have p: "(0::rat) < 10 powi (adjusted x - (prec - 1))" by (simp add: zero_less_power_int)
  have "(10::rat) powi (adjusted x - (prec - 1)) \<le> 10 powi adjusted x"
    by (rule power_int_increasing) (simp_all add: prec_def)
  also have "\<dots> \<le> \<bar>x\<bar>" by (rule adjusted_le[OF assms])
  finally show ?thesis using p by (simp add: le_divide_eq)
qed

lemma rnd_zero: "rnd 0 = 0"
  by (simp add: rnd_def)

lemma rnd_pos: "0 < x \<Longrightarrow> 0 < rnd x"
proof -
  assume x: "0 < x"
  let ?p = "(10::rat) powi (adjusted x - (prec - 1))"
  have p: "0 < ?p" by (simp add: zero_less_power_int)
  have "1 \<le> x / ?p" using scaled_ge_one[of x] x by simp
  then have "1 \<le> round_half_even (x / ?p)" by (rule round_half_even_ge)
  then have "(0::rat) < of_int (round_half_even (x / ?p))" by simp
  then show ?thesis using x p by (simp add: rnd_def Let_def)
qed

lemma rnd_neg: "x < 0 \<Longrightarrow> rnd x < 0"
proof -
  assume x: "x < 0"
  let ?p = "(10::rat) powi (adjusted x - (prec - 1))"
  have p: "0 < ?p" by (simp add: zero_less_power_int)
  have "1 \<le> (- x) / ?p" using scaled_ge_one[of x] x by simp
  then have "x / ?p \<le> - 1" by simp
  then have "round_half_even (x / ?p) \<le> - 1" by (rule round_half_even_le)
  then have "(of_int (round_half_even (x / ?p)) :: rat) < 0" by simp
  then show ?thesis using x p by (simp add: rnd_def Let_def mult_less_0_iff)
qed

lemma rnd_eq_0_iff: "rnd x = 0 \<longleftrightarrow> x = 0"
  using rnd_pos[of x] rnd_neg[of x] rnd_zero by (cases "x = 0"; cases "0 < x") auto

lemma rnd_pos_iff: "0 < rnd x \<longleftrightarrow> 0 < x"
  using rnd_pos[of x] rnd_neg[of x] rnd_zero by (cases "x = 0"; cases "0 < x") auto

lemma rnd_nonneg: "0 \<le> x \<Longrightarrow> 0 \<le> rnd x"
  using rnd_pos[of x] rnd_zero by (cases "x = 0") auto

text \<open>
  Rounding moves a number by at most half a unit in its 28th digit, and the quotient
  \<open>(q1 * p1 + q2 * p2) / (q1 + q2)\<close> computed with five rounded operations on positive
  operands stays within five such relative errors of the exact quotient.
\<close>

lemma round_half_even_error: "\<bar>of_int (round_half_even y) - y\<bar> \<le> 1 / 2"
proof -
  have f: "of_int \<lfloor>y\<rfloor> \<le> y" "y < of_int \<lfloor>y\<rfloor> + 1" by linarith+
  show ?thesis
    unfolding round_half_even_def Let_def using f by (auto simp: abs_le_iff) 
qed

lemma rnd_error: "\<bar>rnd x - x\<bar> \<le> unit_roundoff * \<bar>x\<bar>"
proof (cases "x = 0")
  case True
  then show ?thesis by (simp add: rnd_def)
next
  case False
  let ?p = "(10::rat) powi (adjusted x - (prec - 1))"
  have p: "0 < ?p" by (simp add: zero_less_power_int)
  have xe: "x = (x / ?p) * ?p" using p by simp
  have "rnd x - x = (of_int (round_half_even (x / ?p)) - x / ?p) * ?p"
    using False p by (simp add: rnd_def Let_def left_diff_distrib)
  then have "\<bar>rnd x - x\<bar> = \<bar>of_int (round_half_even (x / ?p)) - x / ?p\<bar> * ?p"
    using p by (simp add: abs_mult)
  also have "\<dots> \<le> (1 / 2) * ?p"
    using round_half_even_error[of "x / ?p"] p by (intro mult_right_mono) simp_all
  also have "\<dots> \<le> unit_roundoff * \<bar>x\<bar>"
  proof -
    have "?p = 10 powi adjusted x / 10 powi (prec - 1)"
      by (rule power_int_diff) simp
    also have "\<dots> = 10 powi adjusted x / 10 ^ 27" by (simp add: prec_def)
    also have "\<dots> \<le> \<bar>x\<bar> / 10 ^ 27"
      using adjusted_le[OF False] by (intro divide_right_mono) simp_all
    finally have "?p \<le> \<bar>x\<bar> / 10 ^ 27" .
    then show ?thesis by (simp add: unit_roundoff_def)
  qed
  finally show ?thesis .
qed

lemma rnd_interval:
  assumes "0 \<le> x"
  shows "(1 - unit_roundoff) * x \<le> rnd x \<and> rnd x \<le> (1 + unit_roundoff) * x"
  using rnd_error[of x] assms by (simp add: abs_le_iff algebra_simps)

lemma roundoff_small: "0 < unit_roundoff" "unit_roundoff < 1"
  by (simp_all add: unit_roundoff_def)

lemma roundoff_cubic:
  "(1 + unit_roundoff) * ((1 + unit_roundoff) * (1 + unit_roundoff)) / (1 - unit_roundoff)
     \<le> 1 + 5 * unit_roundoff"
  "1 - 5 * unit_roundoff
     \<le> (1 - unit_roundoff) * ((1 - unit_roundoff) * (1 - unit_roundoff)) / (1 + unit_roundoff)"
  by (simp_all add: unit_roundoff_def)

lemma entry_error_bound:
  fixes q1 p1 q2 p2 :: rat
  assumes "0 < q1" "0 < q2" "0 < p1" "0 < p2"
  shows "\<bar>rnd (dadd (dmul q1 p1) (dmul q2 p2) / dadd q1 q2) - (q1 * p1 + q2 * p2) / (q1 + q2)\<bar>
         \<le> 5 * unit_roundoff * ((q1 * p1 + q2 * p2) / (q1 + q2))"
proof -
  define u where "u = unit_roundoff"
  define N where "N = q1 * p1 + q2 * p2"
  define D where "D = q1 + q2"
  define a where "a = dmul q1 p1"
  define b where "b = dmul q2 p2"
  define n where "n = dadd a b"
  define d where "d = dadd q1 q2"
  have u: "0 < u" "u < 1" using roundoff_small by (simp_all add: u_def)
  have um: "0 \<le> 1 - u" "0 < 1 - u" "0 \<le> 1 + u" "0 < 1 + u" using u by simp_all
  have m1: "0 < q1 * p1" and m2: "0 < q2 * p2" using assms by simp_all
  have N: "0 < N" unfolding N_def using m1 m2 by (rule add_pos_pos)
  have D: "0 < D" using assms by (simp add: D_def)
  have a: "(1 - u) * (q1 * p1) \<le> a" "a \<le> (1 + u) * (q1 * p1)"
    using rnd_interval[of "q1 * p1"] m1 by (simp_all add: a_def dmul_def u_def)
  have b: "(1 - u) * (q2 * p2) \<le> b" "b \<le> (1 + u) * (q2 * p2)"
    using rnd_interval[of "q2 * p2"] m2 by (simp_all add: b_def dmul_def u_def)
  have "(1 - u) * N = (1 - u) * (q1 * p1) + (1 - u) * (q2 * p2)"
    unfolding N_def by (rule distrib_left)
  then have ab_lo: "(1 - u) * N \<le> a + b" using a(1) b(1) by linarith
  have "(1 + u) * N = (1 + u) * (q1 * p1) + (1 + u) * (q2 * p2)"
    unfolding N_def by (rule distrib_left)
  then have ab_hi: "a + b \<le> (1 + u) * N" using a(2) b(2) by linarith
  have "0 < (1 - u) * N" using um(2) N by (rule mult_pos_pos)
  then have ab0: "0 \<le> a + b" using ab_lo by linarith
  have n: "(1 - u) * (a + b) \<le> n" "n \<le> (1 + u) * (a + b)"
    using rnd_interval[OF ab0] by (simp_all add: n_def dadd_def u_def)
  have "(1 - u) * ((1 - u) * N) \<le> (1 - u) * (a + b)"
    using ab_lo um(1) by (rule mult_left_mono)
  then have n_lo: "(1 - u) * ((1 - u) * N) \<le> n" using n(1) by linarith
  have "(1 + u) * (a + b) \<le> (1 + u) * ((1 + u) * N)"
    using ab_hi um(3) by (rule mult_left_mono)
  then have n_hi: "n \<le> (1 + u) * ((1 + u) * N)" using n(2) by linarith
  have nl0: "0 < (1 - u) * ((1 - u) * N)"
    using um(2) N by (intro mult_pos_pos)
  then have n0: "0 \<le> n" using n_lo by linarith
  have d: "(1 - u) * D \<le> d" "d \<le> (1 + u) * D"
    using rnd_interval[of "q1 + q2"] D by (simp_all add: d_def dadd_def D_def u_def)
  have dl0: "0 < (1 - u) * D" using um(2) D by (rule mult_pos_pos)
  then have d0: "0 < d" using d(1) by linarith
  have q0: "0 \<le> n / d" using n0 d0 by simp
  have e: "(1 - u) * (n / d) \<le> rnd (n / d)" "rnd (n / d) \<le> (1 + u) * (n / d)"
    using rnd_interval[OF q0] by (simp_all add: u_def)
  have q_hi: "n / d \<le> ((1 + u) * ((1 + u) * N)) / ((1 - u) * D)"
    by (rule frac_le[OF _ n_hi dl0 d(1)]) (use n_hi n0 in linarith)
  have q_lo: "((1 - u) * ((1 - u) * N)) / ((1 + u) * D) \<le> n / d"
    by (rule frac_le[OF n0 n_lo d0 d(2)])
  have "(1 + u) * (n / d) \<le> (1 + u) * (((1 + u) * ((1 + u) * N)) / ((1 - u) * D))"
    using q_hi um(3) by (rule mult_left_mono)
  then have hi: "rnd (n / d) \<le> (1 + u) * (((1 + u) * ((1 + u) * N)) / ((1 - u) * D))"
    using e(2) by linarith
  have "(1 - u) * (((1 - u) * ((1 - u) * N)) / ((1 + u) * D)) \<le> (1 - u) * (n / d)"
    using q_lo um(1) by (rule mult_left_mono)
  then have lo: "(1 - u) * (((1 - u) * ((1 - u) * N)) / ((1 + u) * D)) \<le> rnd (n / d)"
    using e(1) by linarith
  have c_hi: "(1 + u) * ((1 + u) * (1 + u)) / (1 - u) \<le> 1 + 5 * u"
    unfolding u_def by (rule roundoff_cubic(1))
  have c_lo: "1 - 5 * u \<le> (1 - u) * ((1 - u) * (1 - u)) / (1 + u)"
    unfolding u_def by (rule roundoff_cubic(2))
  have E: "0 \<le> N / D" using N D by simp
  have "(1 + u) * (((1 + u) * ((1 + u) * N)) / ((1 - u) * D)) =
          ((1 + u) * ((1 + u) * (1 + u)) / (1 - u)) * (N / D)"
    by simp
  also have "\<dots> \<le> (1 + 5 * u) * (N / D)"
    using c_hi E by (rule mult_right_mono)
  finally have hi': "rnd (n / d) \<le> (1 + 5 * u) * (N / D)" using hi by linarith
  have "(1 - 5 * u) * (N / D) \<le> ((1 - u) * ((1 - u) * (1 - u)) / (1 + u)) * (N / D)"
    using c_lo E by (rule mult_right_mono)
  also have "\<dots> = (1 - u) * (((1 - u) * ((1 - u) * N)) / ((1 + u) * D))"
    by simp
  finally have lo': "(1 - 5 * u) * (N / D) \<le> rnd (n / d)" using lo by linarith
  define t where "t = 5 * u * (N / D)"
  define x where "x = rnd (n / d)"
  define E' where "E' = N / D"
  have "(1 + 5 * u) * (N / D) = E' + t"
    unfolding t_def E'_def by (simp only: distrib_right mult_1)
  then have h1: "x \<le> E' + t" using hi' unfolding x_def by simp
  have "(1 - 5 * u) * (N / D) = E' - t"
    unfolding t_def E'_def by (simp only: left_diff_distrib mult_1)
  then have h2: "E' - t \<le> x" using lo' unfolding x_def by simp
  have "\<bar>x - E'\<bar> \<le> t" using h1 h2 by (simp only: abs_le_iff) linarith
  then have "\<bar>rnd (n / d) - N / D\<bar> \<le> 5 * u * (N / D)"
    unfolding x_def E'_def t_def .
  then show ?thesis
    unfolding n_def d_def a_def b_def N_def D_def u_def .
qed

lemma dadd_pos: "0 < a \<Longrightarrow> 0 < b \<Longrightarrow> 0 < dadd a b"
  by (simp add: dadd_def rnd_pos)

lemma dadd_nonneg: "0 \<le> a \<Longrightarrow> 0 \<le> b \<Longrightarrow> 0 \<le> dadd a b"
  by (simp add: dadd_def rnd_nonneg)

lemma dadd_zero_left: "dadd 0 a = rnd a"
  by (simp add: dadd_def)

lemma dsub_nonneg: "b \<le> a \<Longrightarrow> 0 \<le> dsub a b"
  by (simp add: dsub_def rnd_nonneg)

lemma dsub_self: "dsub a a = 0"
  by (simp add: dsub_def rnd_zero)

lemma dsub_eq_0_iff: "dsub a b = 0 \<longleftrightarrow> a = b"
  by (simp add: dsub_def rnd_eq_0_iff)


subsection \<open>Price trajectory\<close>

text \<open>
  C8. The reconstruction is a function of (open, high, low, close, previous close) alone.
  It always yields five samples; the prices run previous close, open, low, high, close when
  close \<open>\<ge>\<close> open and previous close, open, high, low, close when close \<open><\<close> open. The
  row-based and the vectorised variant agree.
\<close>

theorem price_trajectory_five_points:
  "length (get_price_trajectory_vectorized opn h l c pc) = 5 \<and>
   map fst (get_price_trajectory_vectorized opn h l c pc) =
     (if c \<ge> opn then [pc, opn, l, h, c] else [pc, opn, h, l, c]) \<and>
   (c < opn \<longleftrightarrow> \<not> c \<ge> opn) \<and>
   get_price_trajectory \<lparr>k_open = opn, k_high = h, k_low = l, k_close = c\<rparr> pc =
     get_price_trajectory_vectorized opn h l c pc"
  by (simp add: get_price_trajectory_vectorized_def get_price_trajectory_def not_le)

subsection \<open>Margin tiers\<close>

lemma maintenance_margin_scan_find:
  "maintenance_margin_scan v ts =
     map_option (\<lambda>(threshold, max_leverage, mm_rate, fixed). dsub (dmul v mm_rate) fixed)
       (find (\<lambda>t. le_bound v (fst t)) ts)"
  by (induction v ts rule: maintenance_margin_scan.induct) auto

lemma leverage_tier_scan_find:
  "leverage_tier_scan v ts = find (\<lambda>t. le_bound v (fst t)) ts"
  by (induction v ts rule: leverage_tier_scan.induct) auto

lemma find_last_tier:
  "find (\<lambda>t. le_bound v (fst t)) ETH_USDC_TIERS \<noteq> None"
proof -
  have "(Infinity, 1, 5 / 10, 182804300) \<in> set ETH_USDC_TIERS"
    by (simp add: ETH_USDC_TIERS_def)
  moreover have "le_bound v (fst (Infinity, 1 :: int, 5 / 10 :: rat, 182804300 :: rat))" by simp
  ultimately show ?thesis unfolding find_None_iff by blast
qed

lemma tiers_ascending: "sorted_wrt bound_less (map fst ETH_USDC_TIERS)"
  by (simp add: ETH_USDC_TIERS_def)

text \<open>
  C5. The maintenance margin is the net notional \<open>|long - short| * mark\<close> times the rate of
  the first tier of the ascending table whose bound is at least the net notional, minus that
  tier's fixed amount (all in decimal arithmetic); such a tier always exists, and nothing
  clamps the difference.
\<close>

theorem get_maintenance_margin_formula:
  "get_net_position_value s =
     dmul (dabs (dsub (long_position s) (short_position s))) (current_price s) \<and>
   sorted_wrt bound_less (map fst ETH_USDC_TIERS) \<and>
   (\<exists>threshold max_leverage mm_rate fixed.
      find (\<lambda>t. le_bound (get_net_position_value s) (fst t)) ETH_USDC_TIERS =
        Some (threshold, max_leverage, mm_rate, fixed) \<and>
      get_maintenance_margin s = dsub (dmul (get_net_position_value s) mm_rate) fixed)"
proof -
  let ?v = "get_net_position_value s"
  obtain t where t: "find (\<lambda>t. le_bound ?v (fst t)) ETH_USDC_TIERS = Some t"
    using find_last_tier[of ?v] by auto
  obtain threshold max_leverage mm_rate fixed where
    tt: "t = (threshold, max_leverage, mm_rate, fixed)" by (cases t)
  have "get_maintenance_margin s = dsub (dmul ?v mm_rate) fixed"
    by (simp add: get_maintenance_margin_def maintenance_margin_scan_find t tt)
  then show ?thesis
    using t tt tiers_ascending
    by (simp add: get_net_position_value_def get_net_position_def)
qed

text \<open>
  C6, as the claim states it, fails: the used margin is computed from the entry prices, not
  from the mark price. One unit long opened at 100 and marked at 200 uses 100 / 125 = 0.8,
  where the claim's formula gives 200 / 125 = 1.6.
\<close>

theorem used_margin_mark_notional_counterexample:
  "get_used_margin used_margin_example = Inr (4 / 5) \<and>
   ddiv (dmul (dadd (long_position used_margin_example) (short_position used_margin_example))
              (current_price used_margin_example))
        (of_int (min (get_current_max_leverage used_margin_example)
                     (base_leverage used_margin_example))) = Inr (8 / 5)"
  by code_simp

text \<open>
  C6, amended. The used margin is the gross notional at the entry prices,
  \<open>long * long entry + short * short entry\<close>, divided by the effective leverage (and 0 when
  the effective leverage is 0). The effective leverage is the smaller of the configured
  leverage and the maximal leverage of the first tier of the ascending table whose bound is
  at least the gross notional at the mark price, \<open>long * mark + short * mark\<close>.
\<close>

theorem get_used_margin_entry_notional:
  "get_used_margin s =
     (let effective_leverage = min (get_current_max_leverage s) (base_leverage s)
      in if effective_leverage = 0 then Inr 0
         else Inr (rnd (dadd (dmul (long_position s) (long_entry_price s))
                             (dmul (short_position s) (short_entry_price s))
                        / of_int effective_leverage))) \<and>
   get_position_value s =
     dadd (dmul (long_position s) (current_price s)) (dmul (short_position s) (current_price s)) \<and>
   sorted_wrt bound_less (map fst ETH_USDC_TIERS) \<and>
   (\<exists>threshold max_leverage mm_rate fixed.
      find (\<lambda>t. le_bound (get_position_value s) (fst t)) ETH_USDC_TIERS =
        Some (threshold, max_leverage, mm_rate, fixed) \<and>
      get_current_max_leverage s = max_leverage)"
proof -
  let ?v = "get_position_value s"
  obtain t where t: "find (\<lambda>t. le_bound ?v (fst t)) ETH_USDC_TIERS = Some t"
    using find_last_tier[of ?v] by auto
  obtain threshold max_leverage mm_rate fixed where
    tt: "t = (threshold, max_leverage, mm_rate, fixed)" by (cases t)
  have lev: "get_current_max_leverage s = max_leverage"
    by (simp add: get_current_max_leverage_def get_current_leverage_tier_def
        leverage_tier_scan_find t tt)
  have um: "get_used_margin s =
     (let effective_leverage = min (get_current_max_leverage s) (base_leverage s)
      in if effective_leverage = 0 then Inr 0
         else Inr (rnd (dadd (dmul (long_position s) (long_entry_price s))
                             (dmul (short_position s) (short_entry_price s))
                        / of_int effective_leverage)))"
    by (simp add: get_used_margin_def Let_def ddiv_def)
  show ?thesis
    using um t tt lev tiers_ascending by (simp add: get_position_value_def)
qed

subsection \<open>Volatility monitor\<close>

lemma true_range_at_eq:
  "0 < i \<Longrightarrow> i < length hist \<Longrightarrow> true_range_at hist i = true_range (hist ! (i - 1)) (hist ! i)"
  by (auto simp: true_range_at_def true_range_def Let_def max.assoc split: prod.splits)

lemma foldl_add_sum_list: "foldl (+) a xs = a + sum_list (xs :: real list)"
  by (induction xs arbitrary: a) auto

lemma map_true_range_at:
  "map (true_range_at hist) [1 ..< length hist] =
   map (\<lambda>(previous, current). true_range previous current) (zip hist (tl hist))"
proof (rule nth_equalityI)
  show "length (map (true_range_at hist) [1 ..< length hist]) =
        length (map (\<lambda>(previous, current). true_range previous current) (zip hist (tl hist)))"
    by simp
next
  fix i assume "i < length (map (true_range_at hist) [1 ..< length hist])"
  then have i: "Suc i < length hist" by simp
  then have "true_range_at hist (Suc i) = true_range (hist ! i) (hist ! Suc i)"
    using true_range_at_eq[of "Suc i" hist] by simp
  then show "map (true_range_at hist) [1 ..< length hist] ! i =
        map (\<lambda>(previous, current). true_range previous current) (zip hist (tl hist)) ! i"
    using i by (simp add: nth_tl)
qed

lemma calculate_atr_unfold:
  assumes "2 \<le> length (price_history m)"
  shows "calculate_atr m =
           m\<lparr>atr_values :=
               (if length (atr_values m) \<ge> 100
                then tl (atr_values m @ [average_true_range (price_history m)])
                else atr_values m @ [average_true_range (price_history m)])\<rparr>"
proof -
  let ?h = "price_history m"
  define trs where "trs = map (true_range_at ?h) [1 ..< length ?h]"
  have len: "length trs = length ?h - 1" by (simp add: trs_def)
  have "0 < length trs" using assms len by linarith
  then have ne: "trs \<noteq> []" by (rule_tac notI) simp
  have atr: "foldl (+) 0 trs / real (length trs) = average_true_range ?h"
    unfolding average_true_range_def foldl_add_sum_list len
    unfolding trs_def map_true_range_at by simp
  have "calculate_atr m =
          (let atr = foldl (+) 0 trs / real (length trs); vals = atr_values m @ [atr]
           in m\<lparr>atr_values := (if length vals > 100 then tl vals else vals)\<rparr>)"
    using assms ne unfolding calculate_atr_def Let_def trs_def[symmetric] by simp
  then show ?thesis unfolding atr Let_def by (simp add: Suc_le_eq less_Suc_eq_le)
qed

lemma calculate_atr_last:
  assumes "2 \<le> length (price_history m)"
  shows "atr_values (calculate_atr m) \<noteq> [] \<and>
         last (atr_values (calculate_atr m)) = average_true_range (price_history m) \<and>
         price_history (calculate_atr m) = price_history m \<and>
         atr_period (calculate_atr m) = atr_period m \<and>
         length (atr_values (calculate_atr m)) \<le> max 100 (length (atr_values m))"
  unfolding calculate_atr_unfold[OF assms]
  by (cases "atr_values m") (auto simp: last_tl)

lemma update_price_history:
  "price_history (update_price m timestamp high low close) =
     (let hist = price_history m @ [(timestamp, high, low, close)]
      in if int (length hist) > atr_period m + 1 then tl hist else hist) \<and>
   atr_period (update_price m timestamp high low close) = atr_period m"
  by (simp add: update_price_def Let_def calculate_atr_last)

lemma update_price_atr:
  assumes "2 \<le> length (price_history (update_price m timestamp high low close))"
  shows "atr_values (update_price m timestamp high low close) \<noteq> [] \<and>
         last (atr_values (update_price m timestamp high low close)) =
           average_true_range (price_history (update_price m timestamp high low close))"
proof -
  let ?hist = "price_history m @ [(timestamp, high, low, close)]"
  let ?hist' = "if int (length ?hist) > atr_period m + 1 then tl ?hist else ?hist"
  have h: "price_history (update_price m timestamp high low close) = ?hist'"
    using update_price_history[of m timestamp high low close] by (simp add: Let_def)
  have two: "2 \<le> length (price_history (m\<lparr>price_history := ?hist'\<rparr>))"
    using assms h by simp
  have "update_price m timestamp high low close = calculate_atr (m\<lparr>price_history := ?hist'\<rparr>)"
    using two by (simp add: update_price_def Let_def)
  then show ?thesis using calculate_atr_last[OF two] by simp
qed

lemma update_price_atr_length:
  "length (atr_values m) \<le> 100 \<Longrightarrow>
   length (atr_values (update_price m timestamp high low close)) \<le> 100"
proof -
  assume a: "length (atr_values m) \<le> 100"
  let ?hist = "price_history m @ [(timestamp, high, low, close)]"
  let ?hist' = "if int (length ?hist) > atr_period m + 1 then tl ?hist else ?hist"
  let ?m' = "m\<lparr>price_history := ?hist'\<rparr>"
  show ?thesis
  proof (cases "2 \<le> length ?hist'")
    case True
    then have two: "2 \<le> length (price_history ?m')" by simp
    have "update_price m timestamp high low close = calculate_atr ?m'"
      using two by (simp add: update_price_def Let_def)
    then show ?thesis using calculate_atr_last[OF two] a by simp
  next
    case False
    then have "update_price m timestamp high low close = ?m'"
      by (simp add: update_price_def Let_def)
    then show ?thesis using a by simp
  qed
qed

lemma update_price_invariant:
  "monitor_invariant m \<Longrightarrow> monitor_invariant (update_price m timestamp high low close)"
  unfolding monitor_invariant_def
  using update_price_history[of m timestamp high low close]
        update_price_atr_length[of m timestamp high low close]
  by (auto simp: Let_def)

lemma monitor_run_snoc:
  "monitor_run period (updates @ [(timestamp, high, low, close)]) =
     update_price (monitor_run period updates) timestamp high low close"
  by (simp add: monitor_run_def)

lemma monitor_run_invariant:
  "0 \<le> period \<Longrightarrow>
   monitor_invariant (monitor_run period updates) \<and> atr_period (monitor_run period updates) = period"
proof (induction updates rule: rev_induct)
  case Nil
  then show ?case
    by (simp add: monitor_run_def monitor_invariant_def volatility_monitor_init_def)
next
  case (snoc x xs)
  obtain timestamp high low close where x: "x = (timestamp, high, low, close)" by (cases x)
  show ?case
    unfolding x monitor_run_snoc
    using snoc update_price_invariant[of "monitor_run period xs" timestamp high low close]
          update_price_history[of "monitor_run period xs" timestamp high low close]
    by simp
qed

text \<open>
  C10. After every call of \<open>update_price\<close> on a monitor built by the constructor with a
  period \<open>\<ge> 0\<close> and any number of earlier calls: the price history has at most
  \<open>period + 1\<close> entries; it is the old history with the new entry appended, less its oldest
  entry when it was full; when it holds at least two entries, the last ATR value is the
  unweighted average of the true ranges of its adjacent pairs (otherwise no ATR value is
  appended); and the ATR history has at most 100 entries.
\<close>

theorem update_price_bounded_history:
  assumes "0 \<le> period"
  shows
    "(let m = monitor_run period updates;
          m' = update_price m timestamp high low close
      in int (length (price_history m')) \<le> period + 1 \<and>
         price_history m' =
           (if int (length (price_history m)) = period + 1
            then tl (price_history m) @ [(timestamp, high, low, close)]
            else price_history m @ [(timestamp, high, low, close)]) \<and>
         (if 2 \<le> length (price_history m')
          then atr_values m' \<noteq> [] \<and>
               last (atr_values m') = average_true_range (price_history m')
          else atr_values m' = atr_values m) \<and>
         length (atr_values m') \<le> 100)"
proof -
  let ?m = "monitor_run period updates"
  let ?m' = "update_price ?m timestamp high low close"
  have inv: "monitor_invariant ?m" "atr_period ?m = period"
    using monitor_run_invariant[OF assms, of updates] by simp_all
  have inv': "monitor_invariant ?m'" by (rule update_price_invariant[OF inv(1)])
  have a: "int (length (price_history ?m')) \<le> period + 1"
    using inv' update_price_history[of ?m timestamp high low close] inv(2)
    by (simp add: monitor_invariant_def)
  have b: "price_history ?m' =
           (if int (length (price_history ?m)) = period + 1
            then tl (price_history ?m) @ [(timestamp, high, low, close)]
            else price_history ?m @ [(timestamp, high, low, close)])"
  proof (cases "int (length (price_history ?m)) = period + 1")
    case True
    then have "price_history ?m \<noteq> []" using assms by auto
    then show ?thesis
      using True update_price_history[of ?m timestamp high low close] inv(2)
      by (simp add: Let_def)
  next
    case False
    then have "int (length (price_history ?m)) < period + 1"
      using inv by (simp add: monitor_invariant_def)
    then show ?thesis
      using False update_price_history[of ?m timestamp high low close] inv(2)
      by (simp add: Let_def)
  qed
  have c: "2 \<le> length (price_history ?m') \<Longrightarrow>
           atr_values ?m' \<noteq> [] \<and> last (atr_values ?m') = average_true_range (price_history ?m')"
    by (rule update_price_atr)
  have d: "\<not> 2 \<le> length (price_history ?m') \<Longrightarrow> atr_values ?m' = atr_values ?m"
  proof -
    assume n: "\<not> 2 \<le> length (price_history ?m')"
    let ?hist = "price_history ?m @ [(timestamp, high, low, close)]"
    let ?hist' = "if int (length ?hist) > atr_period ?m + 1 then tl ?hist else ?hist"
    have "price_history ?m' = ?hist'"
      using update_price_history[of ?m timestamp high low close] by (simp add: Let_def)
    then have "\<not> 2 \<le> length ?hist'" using n by simp
    then have "?m' = ?m\<lparr>price_history := ?hist'\<rparr>"
      by (simp add: update_price_def Let_def)
    then show ?thesis by simp
  qed
  have e: "length (atr_values ?m') \<le> 100"
    using inv' by (simp add: monitor_invariant_def)
  show ?thesis unfolding Let_def using a b c d e by simp
qed

theorem update_price_bounded_history_witness:
  "(0::int) \<le> 1 \<and>
   int (length (price_history
     (update_price (monitor_run 1 [(0, 3, 1, 2), (60, 4, 2, 3)]) 120 6 3 4))) \<le> 1 + 1 \<and>
   price_history (update_price (monitor_run 1 [(0, 3, 1, 2), (60, 4, 2, 3)]) 120 6 3 4) =
     [(60, 4, 2, 3), (120, 6, 3, 4)] \<and>
   last (atr_values (update_price (monitor_run 1 [(0, 3, 1, 2), (60, 4, 2, 3)]) 120 6 3 4)) = 3"
proof -
  let ?m' = "update_price (monitor_run 1 [(0, 3, 1, 2), (60, 4, 2, 3)]) 120 6 3 4"
  have h: "(0::int) \<le> 1" by simp
  note t = update_price_bounded_history[OF h, of "[(0, 3, 1, 2), (60, 4, 2, 3)]" 120 6 3 4]
  have hist: "price_history ?m' = [(60, 4, 2, 3), (120, 6, 3, 4)]" by code_simp
  have len: "int (length (price_history ?m')) \<le> 1 + 1"
    using t unfolding Let_def by (rule conjunct1)
  have "if 2 \<le> length (price_history ?m')
        then atr_values ?m' \<noteq> [] \<and>
             last (atr_values ?m') = average_true_range (price_history ?m')
        else atr_values ?m' = atr_values (monitor_run 1 [(0, 3, 1, 2), (60, 4, 2, 3)])"
    using t unfolding Let_def by blast
  then have "last (atr_values ?m') = average_true_range (price_history ?m')"
    unfolding hist by simp
  also have "\<dots> = 3"
    unfolding hist by (simp add: average_true_range_def true_range_def)
  finally show ?thesis using hist len by simp
qed

subsection \<open>Opening fills\<close>

text \<open>
  C2 fails on the code. On a side that already holds a position, the branch that recomputes
  the entry price adds the quantity, and the statement after the branch adds it again: a
  second buy of 1 on a long position of 1 leaves a position of 3, not 2.
\<close>

theorem opening_fill_adds_quantity_twice:
  "(case execute_fast_trade double_add_example ''buy_long'' 1 3000 0 of
      Inl e \<Rightarrow> None
    | Inr s1 \<Rightarrow>
        (case execute_fast_trade s1 ''buy_long'' 1 3100 12 of
           Inl e \<Rightarrow> None
         | Inr s2 \<Rightarrow> Some (long_position s1, long_position s2, long_entry_price s2)))
   = Some (1, 3, 3050)"
  by code_simp

subsection \<open>Fee rebate\<close>

lemma in_bounds_year:
  "1678 \<le> ts_year t \<Longrightarrow> ts_year t \<le> 2261 \<Longrightarrow> in_bounds t"
  by (simp add: in_bounds_def key_less_def ts_key_def)

lemma shift_back_ok:
  assumes "1678 \<le> ts_year t" "ts_year t \<le> 2261" "month_ok t"
  shows "in_bounds (shift_months t (- 1)) \<and> ts_year (shift_months t (- 1)) \<le> 2261 \<and>
         month_ok (shift_months t (- 1))"
proof -
  let ?m0 = "ts_month t - 1 + (- 1)"
  have m: "1 \<le> ts_month t" "ts_month t \<le> 12" using assms(3) by (simp_all add: month_ok_def)
  consider "ts_month t = 1" | "2 \<le> ts_month t" using m by linarith
  then show ?thesis
  proof cases
    case 1
    then have "?m0 div 12 = - 1" "?m0 mod 12 = 11" by simp_all
    then show ?thesis using assms(1,2)
      by (simp add: shift_months_def Let_def in_bounds_def key_less_def ts_key_def month_ok_def)
  next
    case 2
    then have "?m0 div 12 = 0" "?m0 mod 12 = ts_month t - 2" using m by simp_all
    then show ?thesis using assms(1,2) m 2
      by (simp add: shift_months_def Let_def in_bounds_def key_less_def ts_key_def month_ok_def)
  qed
qed

lemma shift_forward_ok:
  assumes "in_bounds t" "ts_year t \<le> 2261" "month_ok t"
  shows "in_bounds (shift_months t 1) \<and> month_ok (shift_months t 1)"
proof -
  let ?m0 = "ts_month t - 1 + 1"
  have m: "1 \<le> ts_month t" "ts_month t \<le> 12" using assms(3) by (simp_all add: month_ok_def)
  consider "ts_month t = 12" | "ts_month t \<le> 11" using m by linarith
  then show ?thesis
  proof cases
    case 1
    then have "?m0 div 12 = 1" "?m0 mod 12 = 0" by simp_all
    then show ?thesis using assms(1,2) 1
      by (auto simp: shift_months_def Let_def in_bounds_def key_less_def ts_key_def month_ok_def)
  next
    case 2
    then have "?m0 div 12 = 0" "?m0 mod 12 = ts_month t" using m by simp_all
    then show ?thesis using assms(1,2) m 2
      by (auto simp: shift_months_def Let_def in_bounds_def key_less_def ts_key_def month_ok_def)
  qed
qed

lemma ts_ge_year: "ts_ge a b \<Longrightarrow> ts_year b \<le> ts_year a"
  by (auto simp: ts_ge_def ts_less_def key_less_def ts_key_def)

lemma process_fee_rebate_disabled:
  "\<not> use_fee_rebate s \<Longrightarrow> process_fee_rebate s timestamp = Inr s"
  by (simp add: process_fee_rebate_def)

lemma process_fee_rebate_skipped:
  "timestamp > 2147483647 \<or> to_datetime timestamp = Inl e \<Longrightarrow> process_fee_rebate s timestamp = Inr s"
  by (auto simp: process_fee_rebate_def)

lemma process_fee_rebate_first:
  assumes "use_fee_rebate s" "timestamp \<le> 2147483647" "to_datetime timestamp = Inr current_date"
    and "last_payout_date s = None"
    and "1678 \<le> ts_year current_date" "ts_year current_date \<le> 2261" "month_ok current_date"
    and "1 \<le> rebate_payout_day s"
        "rebate_payout_day s \<le> days_in_month (ts_year current_date) (ts_month current_date)"
  shows "process_fee_rebate s timestamp =
           Inr (s\<lparr>last_payout_date := Some (payout_anchor current_date (rebate_payout_day s))\<rparr>)"
proof -
  let ?start = "current_date\<lparr>ts_day := rebate_payout_day s, ts_secs := 0\<rparr>"
  have b: "in_bounds ?start" using assms(5,6) by (simp add: in_bounds_year)
  have r: "replace_day current_date (rebate_payout_day s) = Inr ?start"
    using assms(8,9) b by (simp add: replace_day_def check_bounds_def)
  have "month_ok ?start" using assms(7) by (simp add: month_ok_def)
  then have "in_bounds (shift_months ?start (- 1))"
    using shift_back_ok[of ?start] assms(5,6) by simp
  then have a: "add_months ?start (- 1) = Inr (shift_months ?start (- 1))"
    by (simp add: add_months_def check_bounds_def)
  show ?thesis
    using assms(1-4) r a
    by (simp add: process_fee_rebate_def payout_anchor_def Let_def)
qed

lemma process_fee_rebate_later:
  assumes "use_fee_rebate s" "timestamp \<le> 2147483647" "to_datetime timestamp = Inr current_date"
    and "last_payout_date s = Some last_date"
    and "in_bounds (shift_months last_date 1)"
  shows "process_fee_rebate s timestamp =
           Inr (if ts_ge current_date (shift_months last_date 1)
                then (if dmul (current_cycle_fees s) (rebate_rate s) > 0
                      then s\<lparr>balance := dadd (balance s) (dmul (current_cycle_fees s) (rebate_rate s)),
                             current_cycle_fees := 0\<rparr>
                      else s)\<lparr>last_payout_date := Some (shift_months last_date 1)\<rparr>
                else s)"
  using assms
  by (simp add: process_fee_rebate_def add_months_def check_bounds_def Let_def)

lemma anchor_ok:
  assumes "1678 \<le> ts_year c" "ts_year c \<le> 2261" "month_ok c"
  shows "in_bounds (payout_anchor c d) \<and> ts_year (payout_anchor c d) \<le> 2261 \<and>
         month_ok (payout_anchor c d)"
proof -
  let ?start = "c\<lparr>ts_day := d, ts_secs := 0\<rparr>"
  have s: "1678 \<le> ts_year ?start" "ts_year ?start \<le> 2261" "month_ok ?start"
    using assms by (simp_all add: month_ok_def)
  show ?thesis
    using shift_back_ok[OF s] s in_bounds_year[OF s(1,2)]
    by (simp add: payout_anchor_def Let_def)
qed

lemma process_fee_rebate_ok:
  assumes "rebate_dates_ok s timestamp"
  shows "\<exists>s'. process_fee_rebate s timestamp = Inr s' \<and> rebate_dates_ok s' timestamp \<and>
           s' = s\<lparr>balance := balance s', current_cycle_fees := current_cycle_fees s',
                   last_payout_date := last_payout_date s'\<rparr>"
proof (cases "\<not> use_fee_rebate s \<or> timestamp > 2147483647 \<or> (\<exists>e. to_datetime timestamp = Inl e)")
  case True
  then have "process_fee_rebate s timestamp = Inr s"
    by (auto simp: process_fee_rebate_def)
  then show ?thesis using assms by simp
next
  case False
  then obtain c where c: "use_fee_rebate s" "timestamp \<le> 2147483647" "to_datetime timestamp = Inr c"
    by (cases "to_datetime timestamp") auto
  have cur: "1678 \<le> ts_year c" "ts_year c \<le> 2261" "month_ok c"
    using assms c(3) by (simp_all add: rebate_dates_ok_def)
  show ?thesis
  proof (cases "last_payout_date s")
    case None
    have d: "1 \<le> rebate_payout_day s" "rebate_payout_day s \<le> days_in_month (ts_year c) (ts_month c)"
      using assms c(3) None by (simp_all add: rebate_dates_ok_def)
    have "process_fee_rebate s timestamp =
            Inr (s\<lparr>last_payout_date := Some (payout_anchor c (rebate_payout_day s))\<rparr>)"
      by (rule process_fee_rebate_first[OF c None cur d])
    then show ?thesis
      using anchor_ok[OF cur, of "rebate_payout_day s"] cur c(3)
      by (simp add: rebate_dates_ok_def)
  next
    case (Some l)
    have l: "in_bounds l" "ts_year l \<le> 2261" "month_ok l"
      using assms c(3) Some by (simp_all add: rebate_dates_ok_def)
    have n: "in_bounds (shift_months l 1)" "month_ok (shift_months l 1)"
      using shift_forward_ok[OF l] by simp_all
    have p: "process_fee_rebate s timestamp =
           Inr (if ts_ge c (shift_months l 1)
                then (if dmul (current_cycle_fees s) (rebate_rate s) > 0
                      then s\<lparr>balance := dadd (balance s) (dmul (current_cycle_fees s) (rebate_rate s)),
                             current_cycle_fees := 0\<rparr>
                      else s)\<lparr>last_payout_date := Some (shift_months l 1)\<rparr>
                else s)"
      by (rule process_fee_rebate_later[OF c Some n(1)])
    show ?thesis
    proof (cases "ts_ge c (shift_months l 1)")
      case True
      then have "ts_year (shift_months l 1) \<le> 2261" using ts_ge_year cur(2) by fastforce
      then show ?thesis using p True n cur c(3)
        by (simp add: rebate_dates_ok_def)
    next
      case False
      then show ?thesis using p assms by simp
    qed
  qed
qed

lemma payout_anchor_not_after:
  assumes "month_ok c"
  shows "ts_ge c (payout_anchor c d)"
proof -
  let ?start = "c\<lparr>ts_day := d, ts_secs := 0\<rparr>"
  have m: "1 \<le> ts_month c" "ts_month c \<le> 12" using assms by (simp_all add: month_ok_def)
  consider "ts_month c = 1" | "2 \<le> ts_month c" using m by linarith
  then have "ts_ge c (shift_months ?start (- 1))"
  proof cases
    case 1
    then have "(ts_month c - 1 + (- 1)) div 12 = - 1" "(ts_month c - 1 + (- 1)) mod 12 = 11" by simp_all
    then show ?thesis
      by (simp add: shift_months_def Let_def ts_ge_def ts_less_def key_less_def ts_key_def)
  next
    case 2
    then have "(ts_month c - 1 + (- 1)) div 12 = 0" "(ts_month c - 1 + (- 1)) mod 12 = ts_month c - 2"
      using m by simp_all
    then show ?thesis
      by (simp add: shift_months_def Let_def ts_ge_def ts_less_def key_less_def ts_key_def)
  qed
  then show ?thesis by (simp add: payout_anchor_def Let_def ts_ge_def)
qed

lemma payout_anchor_day:
  assumes "month_ok c" "1 \<le> d" "d \<le> 28"
  shows "ts_day (payout_anchor c d) = d \<and> ts_secs (payout_anchor c d) = 0"
proof -
  have "d \<le> days_in_month y m" for y m using assms(3) by (simp add: days_in_month_def)
  then show ?thesis
    by (simp add: payout_anchor_def shift_months_def Let_def min_def)
qed

lemma process_fee_rebate_first_in_bounds:
  assumes "use_fee_rebate s" "timestamp \<le> 2147483647" "to_datetime timestamp = Inr current_date"
    and "last_payout_date s = None"
    and "1 \<le> rebate_payout_day s"
        "rebate_payout_day s \<le> days_in_month (ts_year current_date) (ts_month current_date)"
    and "in_bounds (current_date\<lparr>ts_day := rebate_payout_day s, ts_secs := 0\<rparr>)"
        "in_bounds (payout_anchor current_date (rebate_payout_day s))"
  shows "process_fee_rebate s timestamp =
           Inr (s\<lparr>last_payout_date := Some (payout_anchor current_date (rebate_payout_day s))\<rparr>)"
proof -
  let ?start = "current_date\<lparr>ts_day := rebate_payout_day s, ts_secs := 0\<rparr>"
  have r: "replace_day current_date (rebate_payout_day s) = Inr ?start"
    using assms(5,6,7) by (simp add: replace_day_def check_bounds_def)
  show ?thesis
  proof (cases "ts_less current_date ?start")
    case True
    then have "payout_anchor current_date (rebate_payout_day s) = shift_months ?start (- 1)"
      by (simp add: payout_anchor_def Let_def)
    then have "add_months ?start (- 1) = Inr (shift_months ?start (- 1))"
      using assms(8) by (simp add: add_months_def check_bounds_def)
    then show ?thesis
      using assms(1-4) r True by (simp add: process_fee_rebate_def payout_anchor_def Let_def)
  next
    case False
    then show ?thesis
      using assms(1-4) r by (simp add: process_fee_rebate_def payout_anchor_def Let_def)
  qed
qed

lemma payout_anchor_fields:
  "ts_secs (payout_anchor c d) = 0 \<and>
   ts_day (payout_anchor c d) =
     (if ts_less c (c\<lparr>ts_day := d, ts_secs := 0\<rparr>)
      then min d (days_in_month (ts_year (payout_anchor c d)) (ts_month (payout_anchor c d)))
      else d)"
  by (simp add: payout_anchor_def shift_months_def Let_def)

text \<open>
  C9, as the claim states it, fails: the payout resets the cycle fees only when the rebate
  amount is positive. With a rebate rate of 0 (the default of the constructor when the
  configuration names none) and cycle fees of 5, a call one month after the anchor advances
  the anchor and leaves the cycle fees at 5.
\<close>

theorem rebate_reset_counterexample:
  "to_datetime 1613779200 = Inr \<lparr>ts_year = 2021, ts_month = 2, ts_day = 20, ts_secs = 0\<rparr> \<and>
   add_months \<lparr>ts_year = 2021, ts_month = 1, ts_day = 19, ts_secs = 0\<rparr> 1 =
     Inr \<lparr>ts_year = 2021, ts_month = 2, ts_day = 19, ts_secs = 0\<rparr> \<and>
   process_fee_rebate rebate_zero_rate_example 1613779200 =
     Inr (rebate_zero_rate_example
            \<lparr>last_payout_date := Some \<lparr>ts_year = 2021, ts_month = 2, ts_day = 19, ts_secs = 0\<rparr>\<rparr>) \<and>
   (case process_fee_rebate rebate_zero_rate_example 1613779200 of
      Inl e \<Rightarrow> None
    | Inr s' \<Rightarrow> Some (current_cycle_fees s', balance s')) = Some (5, 700)"
  by code_simp

text \<open>
  C9, amended. With the rebate enabled, a timestamp that pandas represents (at most
  2147483647 and decoded to a date), and every date the call computes inside the range of
  pandas (1677-09-21 to 2262-04-11). On the first call, if the configured day exists in the
  current month, nothing is credited and the anchor becomes midnight of the configured day of
  the current month or, when the current date precedes that, that date moved back by one
  month with the day clipped to the length of that month (the configured day itself only when
  the month before has it); nothing else changes. On a later call, with the anchor plus one
  month being the anchor moved forward by one month, the day clipped likewise: if the date is
  at least the anchor plus one month, the anchor advances to it and, only when cycle fees
  times rebate rate is positive, that amount is added to the balance and the cycle fees are
  reset to 0 (otherwise balance and cycle fees stay as they are); before that date nothing
  changes.
\<close>

theorem process_fee_rebate_cycle:
  assumes "use_fee_rebate s" "timestamp \<le> 2147483647" "to_datetime timestamp = Inr current_date"
  shows
    "(last_payout_date s = None \<and>
      1 \<le> rebate_payout_day s \<and>
      rebate_payout_day s \<le> days_in_month (ts_year current_date) (ts_month current_date) \<and>
      in_bounds (current_date\<lparr>ts_day := rebate_payout_day s, ts_secs := 0\<rparr>) \<and>
      in_bounds (payout_anchor current_date (rebate_payout_day s)) \<longrightarrow>
        process_fee_rebate s timestamp =
          Inr (s\<lparr>last_payout_date := Some (payout_anchor current_date (rebate_payout_day s))\<rparr>) \<and>
        payout_anchor current_date (rebate_payout_day s) =
          (if ts_less current_date (current_date\<lparr>ts_day := rebate_payout_day s, ts_secs := 0\<rparr>)
           then shift_months (current_date\<lparr>ts_day := rebate_payout_day s, ts_secs := 0\<rparr>) (- 1)
           else current_date\<lparr>ts_day := rebate_payout_day s, ts_secs := 0\<rparr>) \<and>
        ts_secs (payout_anchor current_date (rebate_payout_day s)) = 0 \<and>
        ts_day (payout_anchor current_date (rebate_payout_day s)) =
          (if ts_less current_date (current_date\<lparr>ts_day := rebate_payout_day s, ts_secs := 0\<rparr>)
           then min (rebate_payout_day s)
                  (days_in_month (ts_year (payout_anchor current_date (rebate_payout_day s)))
                                 (ts_month (payout_anchor current_date (rebate_payout_day s))))
           else rebate_payout_day s)) \<and>
     (\<forall>last_date.
        last_payout_date s = Some last_date \<and> in_bounds (shift_months last_date 1) \<longrightarrow>
        process_fee_rebate s timestamp =
          Inr (if ts_ge current_date (shift_months last_date 1)
               then (if dmul (current_cycle_fees s) (rebate_rate s) > 0
                     then s\<lparr>balance := dadd (balance s) (dmul (current_cycle_fees s) (rebate_rate s)),
                            current_cycle_fees := 0\<rparr>
                     else s)\<lparr>last_payout_date := Some (shift_months last_date 1)\<rparr>
               else s) \<and>
        ts_day (shift_months last_date 1) =
          min (ts_day last_date)
              (days_in_month (ts_year (shift_months last_date 1)) (ts_month (shift_months last_date 1))) \<and>
        ts_secs (shift_months last_date 1) = ts_secs last_date)"
proof (intro conjI impI allI)
  assume a: "last_payout_date s = None \<and>
      1 \<le> rebate_payout_day s \<and>
      rebate_payout_day s \<le> days_in_month (ts_year current_date) (ts_month current_date) \<and>
      in_bounds (current_date\<lparr>ts_day := rebate_payout_day s, ts_secs := 0\<rparr>) \<and>
      in_bounds (payout_anchor current_date (rebate_payout_day s))"
  show "process_fee_rebate s timestamp =
          Inr (s\<lparr>last_payout_date := Some (payout_anchor current_date (rebate_payout_day s))\<rparr>)"
    using a by (intro process_fee_rebate_first_in_bounds[OF assms]) simp_all
  show "payout_anchor current_date (rebate_payout_day s) =
          (if ts_less current_date (current_date\<lparr>ts_day := rebate_payout_day s, ts_secs := 0\<rparr>)
           then shift_months (current_date\<lparr>ts_day := rebate_payout_day s, ts_secs := 0\<rparr>) (- 1)
           else current_date\<lparr>ts_day := rebate_payout_day s, ts_secs := 0\<rparr>)"
    by (simp add: payout_anchor_def Let_def)
  show "ts_secs (payout_anchor current_date (rebate_payout_day s)) = 0"
    using payout_anchor_fields[of current_date "rebate_payout_day s"] by (rule conjunct1)
  show "ts_day (payout_anchor current_date (rebate_payout_day s)) =
          (if ts_less current_date (current_date\<lparr>ts_day := rebate_payout_day s, ts_secs := 0\<rparr>)
           then min (rebate_payout_day s)
                  (days_in_month (ts_year (payout_anchor current_date (rebate_payout_day s)))
                                 (ts_month (payout_anchor current_date (rebate_payout_day s))))
           else rebate_payout_day s)"
    using payout_anchor_fields[of current_date "rebate_payout_day s"] by (rule conjunct2)
next
  fix last_date
  assume "last_payout_date s = Some last_date \<and> in_bounds (shift_months last_date 1)"
  then show "process_fee_rebate s timestamp =
          Inr (if ts_ge current_date (shift_months last_date 1)
               then (if dmul (current_cycle_fees s) (rebate_rate s) > 0
                     then s\<lparr>balance := dadd (balance s) (dmul (current_cycle_fees s) (rebate_rate s)),
                            current_cycle_fees := 0\<rparr>
                     else s)\<lparr>last_payout_date := Some (shift_months last_date 1)\<rparr>
               else s)"
    by (intro process_fee_rebate_later[OF assms]) simp_all
next
  fix last_date
  show "ts_day (shift_months last_date 1) =
          min (ts_day last_date)
              (days_in_month (ts_year (shift_months last_date 1)) (ts_month (shift_months last_date 1)))"
    by (simp add: shift_months_def Let_def)
next
  fix last_date
  show "ts_secs (shift_months last_date 1) = ts_secs last_date"
    by (simp add: shift_months_def Let_def)
qed

theorem process_fee_rebate_cycle_witness:
  "process_fee_rebate rebate_first_example 1613779200 =
     Inr (rebate_first_example
            \<lparr>last_payout_date := Some \<lparr>ts_year = 2021, ts_month = 2, ts_day = 19, ts_secs = 0\<rparr>\<rparr>) \<and>
   process_fee_rebate rebate_day31_example 1615766400 =
     Inr (rebate_day31_example
            \<lparr>last_payout_date := Some \<lparr>ts_year = 2021, ts_month = 2, ts_day = 28, ts_secs = 0\<rparr>\<rparr>) \<and>
   process_fee_rebate rebate_due_example 1613779200 =
     Inr (rebate_due_example
            \<lparr>balance := 703, current_cycle_fees := 0,
             last_payout_date := Some \<lparr>ts_year = 2021, ts_month = 2, ts_day = 19, ts_secs = 0\<rparr>\<rparr>)"
proof -
  let ?c = "\<lparr>ts_year = 2021, ts_month = 2, ts_day = 20, ts_secs = 0\<rparr>"
  let ?m = "\<lparr>ts_year = 2021, ts_month = 3, ts_day = 15, ts_secs = 0\<rparr>"
  let ?l = "\<lparr>ts_year = 2021, ts_month = 1, ts_day = 19, ts_secs = 0\<rparr>"
  let ?n = "\<lparr>ts_year = 2021, ts_month = 2, ts_day = 19, ts_secs = 0\<rparr>"
  let ?f = "\<lparr>ts_year = 2021, ts_month = 2, ts_day = 28, ts_secs = 0\<rparr>"
  have t: "(1613779200::int) \<le> 2147483647" by simp
  have t3: "(1615766400::int) \<le> 2147483647" by simp
  have c: "to_datetime 1613779200 = Inr ?c" by code_simp
  have c3: "to_datetime 1615766400 = Inr ?m" by code_simp
  have u1: "use_fee_rebate rebate_first_example" by code_simp
  have h1: "last_payout_date rebate_first_example = None \<and>
      1 \<le> rebate_payout_day rebate_first_example \<and>
      rebate_payout_day rebate_first_example \<le> days_in_month (ts_year ?c) (ts_month ?c) \<and>
      in_bounds (?c\<lparr>ts_day := rebate_payout_day rebate_first_example, ts_secs := 0\<rparr>) \<and>
      in_bounds (payout_anchor ?c (rebate_payout_day rebate_first_example))"
    by code_simp
  have a1: "payout_anchor ?c (rebate_payout_day rebate_first_example) = ?n" by code_simp
  have "process_fee_rebate rebate_first_example 1613779200 =
     Inr (rebate_first_example
            \<lparr>last_payout_date := Some (payout_anchor ?c (rebate_payout_day rebate_first_example))\<rparr>)"
    using process_fee_rebate_cycle[OF u1 t c] h1 by blast
  then have first: "process_fee_rebate rebate_first_example 1613779200 =
     Inr (rebate_first_example\<lparr>last_payout_date := Some ?n\<rparr>)"
    unfolding a1 .
  have u3: "use_fee_rebate rebate_day31_example" by code_simp
  have h3: "last_payout_date rebate_day31_example = None \<and>
      1 \<le> rebate_payout_day rebate_day31_example \<and>
      rebate_payout_day rebate_day31_example \<le> days_in_month (ts_year ?m) (ts_month ?m) \<and>
      in_bounds (?m\<lparr>ts_day := rebate_payout_day rebate_day31_example, ts_secs := 0\<rparr>) \<and>
      in_bounds (payout_anchor ?m (rebate_payout_day rebate_day31_example))"
    by code_simp
  have a3: "payout_anchor ?m (rebate_payout_day rebate_day31_example) = ?f" by code_simp
  have "process_fee_rebate rebate_day31_example 1615766400 =
     Inr (rebate_day31_example
            \<lparr>last_payout_date := Some (payout_anchor ?m (rebate_payout_day rebate_day31_example))\<rparr>)"
    using process_fee_rebate_cycle[OF u3 t3 c3] h3 by blast
  then have clipped: "process_fee_rebate rebate_day31_example 1615766400 =
     Inr (rebate_day31_example\<lparr>last_payout_date := Some ?f\<rparr>)"
    unfolding a3 .
  have u2: "use_fee_rebate rebate_due_example" by code_simp
  have h2: "last_payout_date rebate_due_example = Some ?l \<and> in_bounds (shift_months ?l 1)"
    by code_simp
  have n2: "shift_months ?l 1 = ?n" by code_simp
  have g2: "ts_ge ?c ?n" by code_simp
  have v2: "dmul (current_cycle_fees rebate_due_example) (rebate_rate rebate_due_example) = 3"
    by code_simp
  have b2: "dadd (balance rebate_due_example) 3 = 703" by code_simp
  have "process_fee_rebate rebate_due_example 1613779200 =
          Inr (if ts_ge ?c (shift_months ?l 1)
               then (if dmul (current_cycle_fees rebate_due_example) (rebate_rate rebate_due_example) > 0
                     then rebate_due_example\<lparr>balance := dadd (balance rebate_due_example)
                              (dmul (current_cycle_fees rebate_due_example) (rebate_rate rebate_due_example)),
                            current_cycle_fees := 0\<rparr>
                     else rebate_due_example)\<lparr>last_payout_date := Some (shift_months ?l 1)\<rparr>
               else rebate_due_example)"
    using process_fee_rebate_cycle[OF u2 t c] h2 by blast
  then have later: "process_fee_rebate rebate_due_example 1613779200 =
     Inr (rebate_due_example\<lparr>balance := 703, current_cycle_fees := 0, last_payout_date := Some ?n\<rparr>)"
    unfolding n2 v2 using g2 b2 by simp
  show ?thesis using first clipped later by simp
qed

subsection \<open>Fee bookkeeping of a fill\<close>

lemma rebate_safe_cong:
  "use_fee_rebate s' = use_fee_rebate s \<Longrightarrow> last_payout_date s' = last_payout_date s \<Longrightarrow>
   rebate_payout_day s' = rebate_payout_day s \<Longrightarrow> rebate_safe s' ts = rebate_safe s ts"
  by (simp add: rebate_safe_def rebate_dates_ok_def cong: sum.case_cong option.case_cong)

lemma rebate_frame_refl: "rebate_frame s s"
  by (simp add: rebate_frame_def)

lemma process_fee_rebate_safe:
  assumes "rebate_safe s ts"
  shows "\<exists>s'. process_fee_rebate s ts = Inr s' \<and> rebate_safe s' ts \<and> rebate_frame s s' \<and>
           total_fees_paid s' = total_fees_paid s"
proof (cases "use_fee_rebate s")
  case False
  then show ?thesis using assms
    by (simp add: process_fee_rebate_disabled rebate_frame_def)
next
  case True
  then have "rebate_dates_ok s ts" using assms by (simp add: rebate_safe_def)
  from process_fee_rebate_ok[OF this] obtain s' where
    s': "process_fee_rebate s ts = Inr s'" "rebate_dates_ok s' ts"
      "s' = s\<lparr>balance := balance s', current_cycle_fees := current_cycle_fees s',
                   last_payout_date := last_payout_date s'\<rparr>"
    by blast
  from s'(3) obtain b c l where
    e: "s' = s\<lparr>balance := b, current_cycle_fees := c, last_payout_date := l\<rparr>" by blast
  have t: "total_fees_paid s' = total_fees_paid s" unfolding e by simp
  have "rebate_frame s s'" unfolding rebate_frame_def e by simp
  then show ?thesis using s'(1,2) t by (simp add: rebate_safe_def)
qed

lemma charge_fee_safe:
  assumes "rebate_safe s ts"
  shows "\<exists>s'. charge_fee s fee ts = Inr s' \<and> rebate_safe s' ts \<and> rebate_frame s s' \<and>
           total_fees_paid s' = dadd (total_fees_paid s) fee \<and>
           (\<not> use_fee_rebate s \<longrightarrow> balance s' = balance s)"
proof (cases "use_fee_rebate s")
  case False
  then show ?thesis using assms
    by (simp add: charge_fee_def Let_def rebate_frame_def rebate_safe_def)
next
  case True
  let ?s1 = "s\<lparr>total_fees_paid := dadd (total_fees_paid s) fee,
                current_cycle_fees := dadd (current_cycle_fees s) fee\<rparr>"
  have "rebate_safe ?s1 ts = rebate_safe s ts" by (rule rebate_safe_cong) simp_all
  then have "rebate_safe ?s1 ts" using assms by simp
  from process_fee_rebate_safe[OF this] obtain s' where
    s': "process_fee_rebate ?s1 ts = Inr s'" "rebate_safe s' ts" "rebate_frame ?s1 s'"
        "total_fees_paid s' = total_fees_paid ?s1"
    by blast
  have c: "charge_fee s fee ts = Inr s'" using True s'(1) by (simp add: charge_fee_def Let_def)
  have f: "rebate_frame s s'" using s'(3) by (simp add: rebate_frame_def)
  show ?thesis using c s'(2,4) f True by simp
qed

lemma process_fee_rebate_anchor_cases:
  "process_fee_rebate s ts = Inr s' \<Longrightarrow>
   last_payout_date s' = last_payout_date s \<or>
   (\<exists>c l. to_datetime ts = Inr c \<and> last_payout_date s' = Some l)"
  by (auto simp: process_fee_rebate_def Let_def split: if_splits sum.splits option.splits)

lemma process_fee_rebate_balance:
  "process_fee_rebate s ts = Inr s' \<Longrightarrow>
   (balance s' = balance s \<and> current_cycle_fees s' = current_cycle_fees s) \<or>
   (use_fee_rebate s \<and> 0 < dmul (current_cycle_fees s) (rebate_rate s) \<and>
    balance s' = dadd (balance s) (dmul (current_cycle_fees s) (rebate_rate s)) \<and>
    current_cycle_fees s' = 0)"
  by (auto simp: process_fee_rebate_def Let_def split: if_splits sum.splits option.splits)

lemma rebate_safe_other_time:
  assumes "rebate_safe s' ts" "rebate_safe s ts'"
    and "use_fee_rebate s' = use_fee_rebate s" "rebate_payout_day s' = rebate_payout_day s"
    and "last_payout_date s' = last_payout_date s \<or>
         (\<exists>c l. to_datetime ts = Inr c \<and> last_payout_date s' = Some l)"
  shows "rebate_safe s' ts'"
proof (cases "use_fee_rebate s")
  case False
  then show ?thesis using assms(3) by (simp add: rebate_safe_def)
next
  case True
  then have ok1: "rebate_dates_ok s' ts" and ok2: "rebate_dates_ok s ts'"
    using assms(1,2,3) by (simp_all add: rebate_safe_def)
  show ?thesis
  proof (cases "last_payout_date s' = last_payout_date s")
    case True
    then show ?thesis using assms(2,3,4) rebate_safe_cong[of s' s ts'] by simp
  next
    case False
    then obtain c l where c: "to_datetime ts = Inr c" "last_payout_date s' = Some l"
      using assms(5) by blast
    have l: "in_bounds l \<and> ts_year l \<le> 2261 \<and> month_ok l"
      using ok1 c by (simp add: rebate_dates_ok_def)
    show ?thesis
      using ok2 l c(2) by (auto simp: rebate_safe_def rebate_dates_ok_def split: sum.splits option.splits)
  qed
qed

lemma charge_fee_full:
  assumes "rebate_safe s ts"
  shows "\<exists>s'. charge_fee s fee ts = Inr s' \<and> rebate_frame s s' \<and>
           total_fees_paid s' = dadd (total_fees_paid s) fee \<and>
           (\<forall>ts'. rebate_safe s ts' \<longrightarrow> rebate_safe s' ts') \<and>
           (balance s' = balance s \<or>
            (use_fee_rebate s \<and>
             0 < dmul (dadd (current_cycle_fees s) fee) (rebate_rate s) \<and>
             balance s' =
               dadd (balance s) (dmul (dadd (current_cycle_fees s) fee) (rebate_rate s))))"
proof -
  from charge_fee_safe[OF assms, of fee] obtain s' where
    s': "charge_fee s fee ts = Inr s'" "rebate_safe s' ts" "rebate_frame s s'"
        "total_fees_paid s' = dadd (total_fees_paid s) fee"
        "\<not> use_fee_rebate s \<longrightarrow> balance s' = balance s"
    by blast
  have u: "use_fee_rebate s' = use_fee_rebate s" "rebate_payout_day s' = rebate_payout_day s"
    using s'(3) by (simp_all add: rebate_frame_def)
  let ?s1 = "s\<lparr>total_fees_paid := dadd (total_fees_paid s) fee,
                current_cycle_fees := dadd (current_cycle_fees s) fee\<rparr>"
  have p: "use_fee_rebate s \<Longrightarrow> process_fee_rebate ?s1 ts = Inr s'"
    using s'(1) by (simp add: charge_fee_def Let_def)
  have a: "last_payout_date s' = last_payout_date s \<or>
           (\<exists>c l. to_datetime ts = Inr c \<and> last_payout_date s' = Some l)"
  proof (cases "use_fee_rebate s")
    case True
    then show ?thesis using process_fee_rebate_anchor_cases[OF p] by simp
  next
    case False
    then have "s' = s\<lparr>total_fees_paid := dadd (total_fees_paid s) fee\<rparr>"
      using s'(1) by (simp add: charge_fee_def Let_def)
    then show ?thesis by simp
  qed
  have b: "balance s' = balance s \<or>
            (use_fee_rebate s \<and>
             0 < dmul (dadd (current_cycle_fees s) fee) (rebate_rate s) \<and>
             balance s' =
               dadd (balance s) (dmul (dadd (current_cycle_fees s) fee) (rebate_rate s)))"
  proof (cases "use_fee_rebate s")
    case True
    then show ?thesis using process_fee_rebate_balance[OF p] by auto
  next
    case False
    then show ?thesis using s'(5) by simp
  qed
  have o: "\<forall>ts'. rebate_safe s ts' \<longrightarrow> rebate_safe s' ts'"
    using rebate_safe_other_time[OF s'(2) _ u a] by blast
  show ?thesis using s'(1,3,4) o b by blast
qed

subsection \<open>Fills\<close>

lemma apply_fill_buy_long:
  "apply_fill s ''buy_long'' amount price =
     (if long_position s = 0
      then Inr (s\<lparr>long_entry_price := price, long_position := dadd (long_position s) amount\<rparr>, 0)
      else case ddiv (dadd (dmul (long_position s) (long_entry_price s)) (dmul amount price))
                     (dadd (long_position s) amount) of
             Inl e \<Rightarrow> Inl e
           | Inr entry \<Rightarrow>
               Inr (s\<lparr>long_entry_price := entry,
                      long_position := dadd (dadd (long_position s) amount) amount\<rparr>, 0))"
  by (simp add: apply_fill_def Let_def)

lemma apply_fill_sell_short:
  "apply_fill s ''sell_short'' amount price =
     (if short_position s = 0
      then Inr (s\<lparr>short_entry_price := price, short_position := dadd (short_position s) amount\<rparr>, 0)
      else case ddiv (dadd (dmul (short_position s) (short_entry_price s)) (dmul amount price))
                     (dadd (short_position s) amount) of
             Inl e \<Rightarrow> Inl e
           | Inr entry \<Rightarrow>
               Inr (s\<lparr>short_entry_price := entry,
                      short_position := dadd (dadd (short_position s) amount) amount\<rparr>, 0))"
  by (simp add: apply_fill_def Let_def)

lemma apply_fill_sell_long:
  "long_position s > 0 \<Longrightarrow>
   apply_fill s ''sell_long'' amount price =
     Inr (s\<lparr>balance := dadd (balance s)
                 (dmul (min amount (long_position s)) (dsub price (long_entry_price s))),
            long_position := dsub (long_position s) (min amount (long_position s)),
            long_entry_price :=
              (if dsub (long_position s) (min amount (long_position s)) = 0 then 0
               else long_entry_price s)\<rparr>,
          dmul (min amount (long_position s)) (dsub price (long_entry_price s)))"
  by (simp add: apply_fill_def Let_def)

lemma apply_fill_buy_short:
  "short_position s > 0 \<Longrightarrow>
   apply_fill s ''buy_short'' amount price =
     Inr (s\<lparr>balance := dadd (balance s)
                 (dmul (min amount (short_position s)) (dsub (short_entry_price s) price)),
            short_position := dsub (short_position s) (min amount (short_position s)),
            short_entry_price :=
              (if dsub (short_position s) (min amount (short_position s)) = 0 then 0
               else short_entry_price s)\<rparr>,
          dmul (min amount (short_position s)) (dsub (short_entry_price s) price))"
  by (simp add: apply_fill_def Let_def)

lemma apply_fill_other:
  "side \<noteq> ''buy_long'' \<Longrightarrow> side \<noteq> ''sell_short'' \<Longrightarrow> \<not> realizes s side \<Longrightarrow>
   apply_fill s side amount price = Inr (s, 0)"
  by (cases "side = ''sell_long''"; cases "side = ''buy_short''")
     (simp_all add: apply_fill_def realizes_def)

lemma apply_fill_result:
  assumes "positions_nonneg s" "0 \<le> amount"
  shows "\<exists>s'. apply_fill s side amount price = Inr (s', realized_pnl s side amount price) \<and>
           positions_nonneg s' \<and> fill_frame s s' \<and>
           balance s' = (if realizes s side
                         then dadd (balance s) (realized_pnl s side amount price)
                         else balance s)"
proof -
  have l: "0 \<le> long_position s" and sh: "0 \<le> short_position s"
    using assms(1) by (simp_all add: positions_nonneg_def)
  consider (bl) "side = ''buy_long''" | (ss) "side = ''sell_short''"
    | (sl) "side = ''sell_long''" "long_position s > 0"
    | (bs) "side = ''buy_short''" "short_position s > 0"
    | (other) "side \<noteq> ''buy_long''" "side \<noteq> ''sell_short''" "\<not> realizes s side"
    by (auto simp: realizes_def)
  then show ?thesis
  proof cases
    case bl
    have r: "\<not> realizes s side" "realized_pnl s side amount price = 0"
      using bl by (simp_all add: realizes_def realized_pnl_def)
    show ?thesis
    proof (cases "long_position s = 0")
      case True
      then show ?thesis unfolding bl apply_fill_buy_long using r bl sh assms(2)
        by (simp add: positions_nonneg_def fill_frame_def dadd_nonneg)
    next
      case False
      then have "0 < long_position s + amount" using l assms(2) by linarith
      then have "dadd (long_position s) amount \<noteq> 0"
        using rnd_pos[of "long_position s + amount"] by (simp add: dadd_def)
      then show ?thesis unfolding bl apply_fill_buy_long using r bl l sh assms(2) False
        by (simp add: positions_nonneg_def fill_frame_def dadd_nonneg ddiv_def)
    qed
  next
    case ss
    have r: "\<not> realizes s side" "realized_pnl s side amount price = 0"
      using ss by (simp_all add: realizes_def realized_pnl_def)
    show ?thesis
    proof (cases "short_position s = 0")
      case True
      then show ?thesis unfolding ss apply_fill_sell_short using r ss l assms(2)
        by (simp add: positions_nonneg_def fill_frame_def dadd_nonneg)
    next
      case False
      then have "0 < short_position s + amount" using sh assms(2) by linarith
      then have "dadd (short_position s) amount \<noteq> 0"
        using rnd_pos[of "short_position s + amount"] by (simp add: dadd_def)
      then show ?thesis unfolding ss apply_fill_sell_short using r ss l sh assms(2) False
        by (simp add: positions_nonneg_def fill_frame_def dadd_nonneg ddiv_def)
    qed
  next
    case sl
    have r: "realizes s side"
      "realized_pnl s side amount price =
         dmul (min amount (long_position s)) (dsub price (long_entry_price s))"
      using sl by (simp_all add: realizes_def realized_pnl_def)
    show ?thesis unfolding r(2) using r(1) sh unfolding sl(1) apply_fill_sell_long[OF sl(2)]
      by (simp add: positions_nonneg_def fill_frame_def dsub_nonneg)
  next
    case bs
    have r: "realizes s side"
      "realized_pnl s side amount price =
         dmul (min amount (short_position s)) (dsub (short_entry_price s) price)"
      using bs by (simp_all add: realizes_def realized_pnl_def)
    show ?thesis unfolding r(2) using r(1) l unfolding bs(1) apply_fill_buy_short[OF bs(2)]
      by (simp add: positions_nonneg_def fill_frame_def dsub_nonneg)
  next
    case other
    have r: "realized_pnl s side amount price = 0"
      using other by (auto simp: realizes_def realized_pnl_def)
    show ?thesis unfolding r apply_fill_other[OF other] using other(3) assms(1)
      by (simp add: fill_frame_def)
  qed
qed

lemma execute_fast_trade_result:
  fixes s :: exchange and amount price :: decimal
  assumes "positions_nonneg s" "rebate_safe s ts" "0 \<le> amount"
  defines "fee \<equiv> dmul (dmul amount price) (maker_fee s)"
  shows "\<exists>s1 s2 s'.
           charge_fee (s\<lparr>balance := dsub (balance s) fee\<rparr>) fee ts = Inr s1 \<and>
           rebate_frame (s\<lparr>balance := dsub (balance s) fee\<rparr>) s1 \<and>
           (balance s1 = dsub (balance s) fee \<or>
            (use_fee_rebate s \<and>
             0 < dmul (dadd (current_cycle_fees s) fee) (rebate_rate s) \<and>
             balance s1 = dadd (dsub (balance s) fee)
                            (dmul (dadd (current_cycle_fees s) fee) (rebate_rate s)))) \<and>
           apply_fill s1 side amount price = Inr (s2, realized_pnl s side amount price) \<and>
           fill_frame s1 s2 \<and>
           execute_fast_trade s side amount price ts = Inr s' \<and>
           positions_nonneg s' \<and>
           (\<forall>ts'. rebate_safe s ts' \<longrightarrow> rebate_safe s' ts') \<and>
           balance s' = (if realizes s side
                         then dadd (balance s1) (realized_pnl s side amount price)
                         else balance s1) \<and>
           long_position s' = long_position s2 \<and> short_position s' = short_position s2 \<and>
           long_entry_price s' = long_entry_price s2 \<and>
           short_entry_price s' = short_entry_price s2 \<and>
           total_fees_paid s' = dadd (total_fees_paid s) fee \<and>
           trade_history s' = trade_history s @
             [\<lparr>tr_timestamp = ts, tr_side = side, tr_amount = amount, tr_price = price,
               tr_fee = fee, tr_pnl = realized_pnl s side amount price,
               tr_leverage = current_leverage s'\<rparr>] \<and>
           active_buy_orders s' = active_buy_orders s \<and>
           active_sell_orders s' = active_sell_orders s \<and>
           order_id_counter s' = order_id_counter s + 1"
proof -
  let ?s0 = "s\<lparr>balance := dsub (balance s) fee\<rparr>"
  have safe0: "rebate_safe ?s0 t = rebate_safe s t" for t by (rule rebate_safe_cong) simp_all
  from charge_fee_full[of ?s0 ts fee] safe0 assms(2) obtain s1 where
    s1: "charge_fee ?s0 fee ts = Inr s1" "rebate_frame ?s0 s1"
        "total_fees_paid s1 = dadd (total_fees_paid ?s0) fee"
        "\<forall>ts'. rebate_safe ?s0 ts' \<longrightarrow> rebate_safe s1 ts'"
        "balance s1 = balance ?s0 \<or>
            (use_fee_rebate ?s0 \<and>
             0 < dmul (dadd (current_cycle_fees ?s0) fee) (rebate_rate ?s0) \<and>
             balance s1 =
               dadd (balance ?s0) (dmul (dadd (current_cycle_fees ?s0) fee) (rebate_rate ?s0)))"
    by blast
  have f1: "long_position s1 = long_position s" "short_position s1 = short_position s"
    "long_entry_price s1 = long_entry_price s" "short_entry_price s1 = short_entry_price s"
    "trade_history s1 = trade_history s" "active_buy_orders s1 = active_buy_orders s"
    "active_sell_orders s1 = active_sell_orders s" "order_id_counter s1 = order_id_counter s"
    using s1(2) by (simp_all add: rebate_frame_def)
  have p1: "positions_nonneg s1" using assms(1) f1 by (simp add: positions_nonneg_def)
  have r1: "realized_pnl s1 side amount price = realized_pnl s side amount price"
    "realizes s1 side = realizes s side"
    using f1 by (simp_all add: realized_pnl_def realizes_def)
  from apply_fill_result[OF p1 assms(3), of side price] obtain s2 where
    s2: "apply_fill s1 side amount price = Inr (s2, realized_pnl s side amount price)"
        "positions_nonneg s2" "fill_frame s1 s2"
        "balance s2 = (if realizes s side
                       then dadd (balance s1) (realized_pnl s side amount price)
                       else balance s1)"
    unfolding r1 by blast
  have f2: "trade_history s2 = trade_history s" "active_buy_orders s2 = active_buy_orders s"
    "active_sell_orders s2 = active_sell_orders s" "order_id_counter s2 = order_id_counter s"
    "total_fees_paid s2 = total_fees_paid s1"
    "use_fee_rebate s2 = use_fee_rebate s1" "last_payout_date s2 = last_payout_date s1"
    "rebate_payout_day s2 = rebate_payout_day s1"
    using s2(3) f1 by (simp_all add: fill_frame_def)
  let ?s3 = "update_current_leverage s2"
  let ?s' = "?s3\<lparr>trade_history := trade_history ?s3 @
             [\<lparr>tr_timestamp = ts, tr_side = side, tr_amount = amount, tr_price = price,
               tr_fee = fee, tr_pnl = realized_pnl s side amount price,
               tr_leverage = current_leverage ?s3\<rparr>],
             order_id_counter := order_id_counter ?s3 + 1\<rparr>"
  have e: "execute_fast_trade s side amount price ts = Inr ?s'"
    using s1(1) s2(1) unfolding execute_fast_trade_def fee_def[symmetric] Let_def by simp
  have safe: "\<forall>ts'. rebate_safe s ts' \<longrightarrow> rebate_safe ?s' ts'"
  proof (intro allI impI)
    fix t assume "rebate_safe s t"
    then have "rebate_safe s1 t" using s1(4) safe0 by blast
    moreover have "rebate_safe ?s' t = rebate_safe s1 t"
      by (rule rebate_safe_cong) (simp_all add: update_current_leverage_def Let_def f2)
    ultimately show "rebate_safe ?s' t" by simp
  qed
  have pos: "positions_nonneg ?s'"
    using s2(2) by (simp add: positions_nonneg_def update_current_leverage_def Let_def)
  show ?thesis
    apply (rule exI[of _ s1], rule exI[of _ s2], rule exI[of _ ?s'])
    using s1(1,2,3,5) s2(1,3,4) e safe pos f2
    by (simp add: update_current_leverage_def Let_def)
qed

text \<open>
  C3, as the claim states it, fails: with the rebate enabled, \<open>execute_fast_trade\<close> calls
  \<open>process_fee_rebate\<close>, which credits the balance when a payout is due. An opening fill
  with fee 0, one month after the anchor and with cycle fees of 10 at a rate of 0.30, moves
  the balance from 700 to 703, where the claim's formula gives 700.
\<close>

theorem trade_balance_rebate_counterexample:
  "(case execute_fast_trade rebate_due_example ''buy_long'' 1 100 1613779200 of
      Inl e \<Rightarrow> None | Inr s' \<Rightarrow> Some (balance s')) = Some 703 \<and>
   dsub (balance rebate_due_example) (dmul (dmul 1 100) (maker_fee rebate_due_example)) = 700"
  by code_simp

text \<open>
  C3, amended. For a state with non-negative quantities, a quantity \<open>\<ge> 0\<close> and dates the
  rebate bookkeeping accepts, \<open>execute_fast_trade\<close> returns, and
  balance after = balance before - fee + rebate + realised profit, in decimal arithmetic and
  in this order, where fee = quantity * price * maker fee rate; the rebate is absent unless the
  rebate is enabled and a payout is made during the call, and is then
  (cycle fees + fee) * rebate rate; the realised profit is absent for the opening sides,
  min(quantity, held long) * (price - long entry) for sell_long and
  min(quantity, held short) * (short entry - price) for buy_short on a held position, and
  absent when nothing is held. The quantity closed is clipped to the quantity held.
\<close>

theorem execute_fast_trade_balance:
  fixes s :: exchange and amount price :: decimal
  assumes "positions_nonneg s" "rebate_safe s ts" "0 \<le> amount"
  defines "fee \<equiv> dmul (dmul amount price) (maker_fee s)"
  defines "rebate \<equiv> dmul (dadd (current_cycle_fees s) fee) (rebate_rate s)"
  shows "\<exists>s' b. execute_fast_trade s side amount price ts = Inr s' \<and>
           (b = dsub (balance s) fee \<or>
            (use_fee_rebate s \<and> 0 < rebate \<and> b = dadd (dsub (balance s) fee) rebate)) \<and>
           balance s' = (if realizes s side
                         then dadd b (realized_pnl s side amount price)
                         else b) \<and>
           tr_fee (last (trade_history s')) = fee \<and>
           tr_pnl (last (trade_history s')) = realized_pnl s side amount price \<and>
           total_fees_paid s' = dadd (total_fees_paid s) fee \<and>
           (side = ''sell_long'' \<longrightarrow>
              long_position s' = dsub (long_position s) (min amount (long_position s))) \<and>
           (side = ''buy_short'' \<longrightarrow>
              short_position s' = dsub (short_position s) (min amount (short_position s)))"
proof -
  from execute_fast_trade_result[OF assms(1,2,3), of price side]
  obtain s1 s2 s' where
    r: "rebate_frame (s\<lparr>balance := dsub (balance s) fee\<rparr>) s1"
       "balance s1 = dsub (balance s) fee \<or>
            (use_fee_rebate s \<and> 0 < rebate \<and> balance s1 = dadd (dsub (balance s) fee) rebate)"
       "apply_fill s1 side amount price = Inr (s2, realized_pnl s side amount price)"
       "execute_fast_trade s side amount price ts = Inr s'"
       "balance s' = (if realizes s side
                         then dadd (balance s1) (realized_pnl s side amount price)
                         else balance s1)"
       "long_position s' = long_position s2" "short_position s' = short_position s2"
       "total_fees_paid s' = dadd (total_fees_paid s) fee"
       "trade_history s' = trade_history s @
             [\<lparr>tr_timestamp = ts, tr_side = side, tr_amount = amount, tr_price = price,
               tr_fee = fee, tr_pnl = realized_pnl s side amount price,
               tr_leverage = current_leverage s'\<rparr>]"
    unfolding fee_def rebate_def by blast
  have f1: "long_position s1 = long_position s" "short_position s1 = short_position s"
    using r(1) by (simp_all add: rebate_frame_def)
  have nn: "0 \<le> long_position s" "0 \<le> short_position s"
    using assms(1) by (simp_all add: positions_nonneg_def)
  have cl: "long_position s' = dsub (long_position s) (min amount (long_position s))"
    if "side = ''sell_long''"
  proof (cases "long_position s > 0")
    case True
    then show ?thesis
      using r(3,6) f1 apply_fill_sell_long[of s1 amount price] that by auto
  next
    case False
    then have z: "long_position s = 0" using nn by simp
    then have "\<not> realizes s1 side" using that f1 by (simp add: realizes_def)
    then have "apply_fill s1 side amount price = Inr (s1, 0)"
      using that by (intro apply_fill_other) simp_all
    then show ?thesis using r(3,6) f1 z assms(3) by (simp add: dsub_self)
  qed
  have cs: "short_position s' = dsub (short_position s) (min amount (short_position s))"
    if "side = ''buy_short''"
  proof (cases "short_position s > 0")
    case True
    then show ?thesis
      using r(3,7) f1 apply_fill_buy_short[of s1 amount price] that by auto
  next
    case False
    then have z: "short_position s = 0" using nn by simp
    then have "\<not> realizes s1 side" using that f1 by (simp add: realizes_def)
    then have "apply_fill s1 side amount price = Inr (s1, 0)"
      using that by (intro apply_fill_other) simp_all
    then show ?thesis using r(3,7) f1 z assms(3) by (simp add: dsub_self)
  qed
  show ?thesis
    apply (rule exI[of _ s'], rule exI[of _ "balance s1"])
    using r(2,4,5,8,9) cl cs by simp
qed

theorem execute_fast_trade_balance_witness:
  "positions_nonneg close_long_example \<and> rebate_safe close_long_example 0 \<and>
   (\<exists>s'. execute_fast_trade close_long_example ''sell_long'' 5 3100 0 = Inr s' \<and>
         balance s' = 8969 / 10 \<and> long_position s' = 0)"
proof -
  have h1: "positions_nonneg close_long_example" by code_simp
  have h2: "rebate_safe close_long_example 0" by code_simp
  have h3: "(0::rat) \<le> 5" by simp
  have u: "\<not> use_fee_rebate close_long_example" by code_simp
  have r: "realizes close_long_example ''sell_long''" by code_simp
  have b: "dadd (dsub (balance close_long_example)
                   (dmul (dmul 5 3100) (maker_fee close_long_example)))
                (realized_pnl close_long_example ''sell_long'' 5 3100) = 8969 / 10"
    by code_simp
  have p: "dsub (long_position close_long_example) (min 5 (long_position close_long_example)) = 0"
    by code_simp
  from execute_fast_trade_balance[OF h1 h2 h3, where side = "''sell_long''" and price = 3100]
  obtain s' b' where
    s': "execute_fast_trade close_long_example ''sell_long'' 5 3100 0 = Inr s'"
        "b' = dsub (balance close_long_example) (dmul (dmul 5 3100) (maker_fee close_long_example))"
        "balance s' = dadd b' (realized_pnl close_long_example ''sell_long'' 5 3100)"
        "long_position s' =
           dsub (long_position close_long_example) (min 5 (long_position close_long_example))"
    using u r by auto
  show ?thesis using h1 h2 s' b p by simp
qed

lemma opening_fill_long:
  fixes s :: exchange and amount price :: decimal
  assumes "positions_nonneg s" "rebate_safe s ts" "0 \<le> amount"
  shows "\<exists>s'. execute_fast_trade s ''buy_long'' amount price ts = Inr s' \<and>
           positions_nonneg s' \<and> (\<forall>ts'. rebate_safe s ts' \<longrightarrow> rebate_safe s' ts') \<and>
           short_position s' = short_position s \<and>
           short_entry_price s' = short_entry_price s \<and>
           long_position s' =
             (if long_position s = 0 then dadd (long_position s) amount
              else dadd (dadd (long_position s) amount) amount) \<and>
           long_entry_price s' =
             (if long_position s = 0 then price
              else rnd (dadd (dmul (long_position s) (long_entry_price s)) (dmul amount price)
                        / dadd (long_position s) amount))"
proof -
  let ?fee = "dmul (dmul amount price) (maker_fee s)"
  from execute_fast_trade_result[OF assms, of price "''buy_long''"]
  obtain s1 s2 s' where
    r: "rebate_frame (s\<lparr>balance := dsub (balance s) ?fee\<rparr>) s1"
       "apply_fill s1 ''buy_long'' amount price = Inr (s2, realized_pnl s ''buy_long'' amount price)"
       "execute_fast_trade s ''buy_long'' amount price ts = Inr s'"
       "positions_nonneg s'" "\<forall>ts'. rebate_safe s ts' \<longrightarrow> rebate_safe s' ts'"
       "long_position s' = long_position s2" "short_position s' = short_position s2"
       "long_entry_price s' = long_entry_price s2" "short_entry_price s' = short_entry_price s2"
    by blast
  have f1: "long_position s1 = long_position s" "short_position s1 = short_position s"
    "long_entry_price s1 = long_entry_price s" "short_entry_price s1 = short_entry_price s"
    using r(1) by (simp_all add: rebate_frame_def)
  have nn: "0 \<le> long_position s" using assms(1) by (simp add: positions_nonneg_def)
  show ?thesis
  proof (cases "long_position s = 0")
    case True
    then have "s2 = s1\<lparr>long_entry_price := price, long_position := dadd (long_position s1) amount\<rparr>"
      using r(2) f1 unfolding apply_fill_buy_long by simp
    then show ?thesis using r(3-9) f1 True by simp
  next
    case False
    then have "0 < long_position s + amount" using nn assms(3) by linarith
    then have nz: "dadd (long_position s) amount \<noteq> 0"
      using rnd_pos[of "long_position s + amount"] by (simp add: dadd_def)
    have "s2 = s1\<lparr>long_entry_price :=
                     rnd (dadd (dmul (long_position s) (long_entry_price s)) (dmul amount price)
                          / dadd (long_position s) amount),
                   long_position := dadd (dadd (long_position s) amount) amount\<rparr>"
      using r(2) f1 False nz unfolding apply_fill_buy_long by (simp add: ddiv_def)
    then show ?thesis using r(3-9) f1 False by simp
  qed
qed

lemma opening_fill_short:
  fixes s :: exchange and amount price :: decimal
  assumes "positions_nonneg s" "rebate_safe s ts" "0 \<le> amount"
  shows "\<exists>s'. execute_fast_trade s ''sell_short'' amount price ts = Inr s' \<and>
           positions_nonneg s' \<and> (\<forall>ts'. rebate_safe s ts' \<longrightarrow> rebate_safe s' ts') \<and>
           long_position s' = long_position s \<and>
           long_entry_price s' = long_entry_price s \<and>
           short_position s' =
             (if short_position s = 0 then dadd (short_position s) amount
              else dadd (dadd (short_position s) amount) amount) \<and>
           short_entry_price s' =
             (if short_position s = 0 then price
              else rnd (dadd (dmul (short_position s) (short_entry_price s)) (dmul amount price)
                        / dadd (short_position s) amount))"
proof -
  let ?fee = "dmul (dmul amount price) (maker_fee s)"
  from execute_fast_trade_result[OF assms, of price "''sell_short''"]
  obtain s1 s2 s' where
    r: "rebate_frame (s\<lparr>balance := dsub (balance s) ?fee\<rparr>) s1"
       "apply_fill s1 ''sell_short'' amount price = Inr (s2, realized_pnl s ''sell_short'' amount price)"
       "execute_fast_trade s ''sell_short'' amount price ts = Inr s'"
       "positions_nonneg s'" "\<forall>ts'. rebate_safe s ts' \<longrightarrow> rebate_safe s' ts'"
       "long_position s' = long_position s2" "short_position s' = short_position s2"
       "long_entry_price s' = long_entry_price s2" "short_entry_price s' = short_entry_price s2"
    by blast
  have f1: "long_position s1 = long_position s" "short_position s1 = short_position s"
    "long_entry_price s1 = long_entry_price s" "short_entry_price s1 = short_entry_price s"
    using r(1) by (simp_all add: rebate_frame_def)
  have nn: "0 \<le> short_position s" using assms(1) by (simp add: positions_nonneg_def)
  show ?thesis
  proof (cases "short_position s = 0")
    case True
    then have "s2 = s1\<lparr>short_entry_price := price, short_position := dadd (short_position s1) amount\<rparr>"
      using r(2) f1 unfolding apply_fill_sell_short by simp
    then show ?thesis using r(3-9) f1 True by simp
  next
    case False
    then have "0 < short_position s + amount" using nn assms(3) by linarith
    then have nz: "dadd (short_position s) amount \<noteq> 0"
      using rnd_pos[of "short_position s + amount"] by (simp add: dadd_def)
    have "s2 = s1\<lparr>short_entry_price :=
                     rnd (dadd (dmul (short_position s) (short_entry_price s)) (dmul amount price)
                          / dadd (short_position s) amount),
                   short_position := dadd (dadd (short_position s) amount) amount\<rparr>"
      using r(2) f1 False nz unfolding apply_fill_sell_short by (simp add: ddiv_def)
    then show ?thesis using r(3-9) f1 False by simp
  qed
qed

text \<open>
  C4. Two opening fills on the same side, \<open>q1\<close> at \<open>p1\<close> then \<open>q2\<close> at \<open>p2\<close> with
  \<open>q1, q2 > 0\<close>, on a side whose position was 0: both calls return, and the entry price
  recorded is \<open>(q1 * p1 + q2 * p2) / (q1 + q2)\<close> evaluated in the decimal arithmetic of the
  code (each operation rounded to 28 significant digits); for positive prices it differs
  from the exact quotient by at most \<open>2.5 * 10\<^sup>-\<^sup>2\<^sup>7\<close> of it. \<open>q1\<close> is a decimal of at
  most 28 digits, as every result of decimal arithmetic is.
\<close>

theorem weighted_average_entry:
  fixes s :: exchange and q1 p1 q2 p2 :: decimal
  assumes "positions_nonneg s" "rebate_safe s t1" "rebate_safe s t2"
    and "0 < q1" "0 < q2" "rnd q1 = q1"
  shows
    "(long_position s = 0 \<longrightarrow>
        (\<exists>s1 s2. execute_fast_trade s ''buy_long'' q1 p1 t1 = Inr s1 \<and>
                 execute_fast_trade s1 ''buy_long'' q2 p2 t2 = Inr s2 \<and>
                 long_position s1 = q1 \<and> long_entry_price s1 = p1 \<and>
                 long_entry_price s2 = rnd (dadd (dmul q1 p1) (dmul q2 p2) / dadd q1 q2) \<and>
                 (0 < p1 \<and> 0 < p2 \<longrightarrow>
                    \<bar>long_entry_price s2 - (q1 * p1 + q2 * p2) / (q1 + q2)\<bar>
                      \<le> 5 * unit_roundoff * ((q1 * p1 + q2 * p2) / (q1 + q2))))) \<and>
     (short_position s = 0 \<longrightarrow>
        (\<exists>s1 s2. execute_fast_trade s ''sell_short'' q1 p1 t1 = Inr s1 \<and>
                 execute_fast_trade s1 ''sell_short'' q2 p2 t2 = Inr s2 \<and>
                 short_position s1 = q1 \<and> short_entry_price s1 = p1 \<and>
                 short_entry_price s2 = rnd (dadd (dmul q1 p1) (dmul q2 p2) / dadd q1 q2) \<and>
                 (0 < p1 \<and> 0 < p2 \<longrightarrow>
                    \<bar>short_entry_price s2 - (q1 * p1 + q2 * p2) / (q1 + q2)\<bar>
                      \<le> 5 * unit_roundoff * ((q1 * p1 + q2 * p2) / (q1 + q2)))))"
proof (intro conjI impI)
  assume z: "long_position s = 0"
  from opening_fill_long[OF assms(1,2), of q1 p1] assms(4) obtain s1 where
    s1: "execute_fast_trade s ''buy_long'' q1 p1 t1 = Inr s1" "positions_nonneg s1"
        "\<forall>ts'. rebate_safe s ts' \<longrightarrow> rebate_safe s1 ts'"
        "long_position s1 = dadd (long_position s) q1" "long_entry_price s1 = p1"
    using z by auto
  have q: "long_position s1 = q1" using s1(4) z assms(6) by (simp add: dadd_def)
  have safe: "rebate_safe s1 t2" using s1(3) assms(3) by blast
  from opening_fill_long[OF s1(2) safe, of q2 p2] assms(5) obtain s2 where
    s2: "execute_fast_trade s1 ''buy_long'' q2 p2 t2 = Inr s2"
        "long_entry_price s2 = rnd (dadd (dmul q1 p1) (dmul q2 p2) / dadd q1 q2)"
    using q s1(5) assms(4) by auto
  have e: "0 < p1 \<and> 0 < p2 \<longrightarrow>
           \<bar>long_entry_price s2 - (q1 * p1 + q2 * p2) / (q1 + q2)\<bar>
             \<le> 5 * unit_roundoff * ((q1 * p1 + q2 * p2) / (q1 + q2))"
    unfolding s2(2) using entry_error_bound[OF assms(4,5)] by blast
  show "\<exists>s1 s2. execute_fast_trade s ''buy_long'' q1 p1 t1 = Inr s1 \<and>
                 execute_fast_trade s1 ''buy_long'' q2 p2 t2 = Inr s2 \<and>
                 long_position s1 = q1 \<and> long_entry_price s1 = p1 \<and>
                 long_entry_price s2 = rnd (dadd (dmul q1 p1) (dmul q2 p2) / dadd q1 q2) \<and>
                 (0 < p1 \<and> 0 < p2 \<longrightarrow>
                    \<bar>long_entry_price s2 - (q1 * p1 + q2 * p2) / (q1 + q2)\<bar>
                      \<le> 5 * unit_roundoff * ((q1 * p1 + q2 * p2) / (q1 + q2)))"
    using s1(1,5) q s2 e by blast
next
  assume z: "short_position s = 0"
  from opening_fill_short[OF assms(1,2), of q1 p1] assms(4) obtain s1 where
    s1: "execute_fast_trade s ''sell_short'' q1 p1 t1 = Inr s1" "positions_nonneg s1"
        "\<forall>ts'. rebate_safe s ts' \<longrightarrow> rebate_safe s1 ts'"
        "short_position s1 = dadd (short_position s) q1" "short_entry_price s1 = p1"
    using z by auto
  have q: "short_position s1 = q1" using s1(4) z assms(6) by (simp add: dadd_def)
  have safe: "rebate_safe s1 t2" using s1(3) assms(3) by blast
  from opening_fill_short[OF s1(2) safe, of q2 p2] assms(5) obtain s2 where
    s2: "execute_fast_trade s1 ''sell_short'' q2 p2 t2 = Inr s2"
        "short_entry_price s2 = rnd (dadd (dmul q1 p1) (dmul q2 p2) / dadd q1 q2)"
    using q s1(5) assms(4) by auto
  have e: "0 < p1 \<and> 0 < p2 \<longrightarrow>
           \<bar>short_entry_price s2 - (q1 * p1 + q2 * p2) / (q1 + q2)\<bar>
             \<le> 5 * unit_roundoff * ((q1 * p1 + q2 * p2) / (q1 + q2))"
    unfolding s2(2) using entry_error_bound[OF assms(4,5)] by blast
  show "\<exists>s1 s2. execute_fast_trade s ''sell_short'' q1 p1 t1 = Inr s1 \<and>
                 execute_fast_trade s1 ''sell_short'' q2 p2 t2 = Inr s2 \<and>
                 short_position s1 = q1 \<and> short_entry_price s1 = p1 \<and>
                 short_entry_price s2 = rnd (dadd (dmul q1 p1) (dmul q2 p2) / dadd q1 q2) \<and>
                 (0 < p1 \<and> 0 < p2 \<longrightarrow>
                    \<bar>short_entry_price s2 - (q1 * p1 + q2 * p2) / (q1 + q2)\<bar>
                      \<le> 5 * unit_roundoff * ((q1 * p1 + q2 * p2) / (q1 + q2)))"
    using s1(1,5) q s2 e by blast
qed

theorem weighted_average_entry_witness:
  "positions_nonneg double_add_example \<and> rebate_safe double_add_example 0 \<and>
   rebate_safe double_add_example 12 \<and> rnd 1 = 1 \<and> long_position double_add_example = 0 \<and>
   (\<exists>s1 s2. execute_fast_trade double_add_example ''buy_long'' 1 3000 0 = Inr s1 \<and>
            execute_fast_trade s1 ''buy_long'' 2 3300 12 = Inr s2 \<and>
            long_position s1 = 1 \<and> long_entry_price s1 = 3000 \<and>
            long_entry_price s2 = 3200)"
proof -
  have h1: "positions_nonneg double_add_example" by code_simp
  have h2: "rebate_safe double_add_example 0" by code_simp
  have h3: "rebate_safe double_add_example 12" by code_simp
  have h4: "(0::rat) < 1" "(0::rat) < 2" by simp_all
  have h5: "rnd 1 = 1" by code_simp
  have z: "long_position double_add_example = 0" by code_simp
  have v: "rnd (dadd (dmul 1 3000) (dmul 2 3300) / dadd 1 2) = 3200" by code_simp
  from weighted_average_entry[OF h1 h2 h3 h4 h5, of 3000 3300] z v
  have "\<exists>s1 s2. execute_fast_trade double_add_example ''buy_long'' 1 3000 0 = Inr s1 \<and>
            execute_fast_trade s1 ''buy_long'' 2 3300 12 = Inr s2 \<and>
            long_position s1 = 1 \<and> long_entry_price s1 = 3000 \<and>
            long_entry_price s2 = 3200"
    by simp blast
  then show ?thesis using h1 h2 h3 h5 z by simp
qed

subsection \<open>Liquidation\<close>

lemma force_close_long_result:
  assumes "rebate_safe s ts"
  shows "\<exists>s'. force_close_long s price rate ts = Inr s' \<and>
           (\<forall>ts'. rebate_safe s ts' \<longrightarrow> rebate_safe s' ts') \<and>
           long_position s' = (if long_position s > 0 then 0 else long_position s) \<and>
           long_entry_price s' = (if long_position s > 0 then 0 else long_entry_price s) \<and>
           short_position s' = short_position s \<and>
           short_entry_price s' = short_entry_price s \<and>
           total_fees_paid s' =
             (if long_position s > 0
              then dadd (total_fees_paid s) (dmul (dmul (long_position s) price) rate)
              else total_fees_paid s) \<and>
           current_price s' = current_price s \<and> taker_fee s' = taker_fee s \<and>
           liquidation_events s' = liquidation_events s \<and>
           active_buy_orders s' = active_buy_orders s \<and>
           active_sell_orders s' = active_sell_orders s \<and>
           trade_history s' = trade_history s"
proof (cases "long_position s > 0")
  case False
  then show ?thesis by (simp add: force_close_long_def)
next
  case True
  let ?pnl = "dmul (long_position s) (dsub price (long_entry_price s))"
  let ?fee = "dmul (dmul (long_position s) price) rate"
  let ?s0 = "s\<lparr>balance := dadd (balance s) (dsub ?pnl ?fee)\<rparr>"
  have safe0: "rebate_safe ?s0 t = rebate_safe s t" for t by (rule rebate_safe_cong) simp_all
  from charge_fee_full[of ?s0 ts ?fee] safe0 assms obtain s1 where
    s1: "charge_fee ?s0 ?fee ts = Inr s1" "rebate_frame ?s0 s1"
        "total_fees_paid s1 = dadd (total_fees_paid ?s0) ?fee"
        "\<forall>ts'. rebate_safe ?s0 ts' \<longrightarrow> rebate_safe s1 ts'"
    by blast
  let ?s' = "s1\<lparr>long_position := 0, long_entry_price := 0\<rparr>"
  have e: "force_close_long s price rate ts = Inr ?s'"
    using True s1(1) by (simp add: force_close_long_def Let_def)
  have safe: "\<forall>ts'. rebate_safe s ts' \<longrightarrow> rebate_safe ?s' ts'"
  proof (intro allI impI)
    fix t assume "rebate_safe s t"
    then have "rebate_safe s1 t" using s1(4) safe0 by blast
    moreover have "rebate_safe ?s' t = rebate_safe s1 t" by (rule rebate_safe_cong) simp_all
    ultimately show "rebate_safe ?s' t" by simp
  qed
  show ?thesis
    apply (rule exI[of _ ?s'])
    using e safe s1(2,3) True by (simp add: rebate_frame_def)
qed

lemma force_close_short_result:
  assumes "rebate_safe s ts"
  shows "\<exists>s'. force_close_short s price rate ts = Inr s' \<and>
           (\<forall>ts'. rebate_safe s ts' \<longrightarrow> rebate_safe s' ts') \<and>
           short_position s' = (if short_position s > 0 then 0 else short_position s) \<and>
           short_entry_price s' = (if short_position s > 0 then 0 else short_entry_price s) \<and>
           long_position s' = long_position s \<and>
           long_entry_price s' = long_entry_price s \<and>
           total_fees_paid s' =
             (if short_position s > 0
              then dadd (total_fees_paid s) (dmul (dmul (short_position s) price) rate)
              else total_fees_paid s) \<and>
           current_price s' = current_price s \<and> taker_fee s' = taker_fee s \<and>
           liquidation_events s' = liquidation_events s \<and>
           active_buy_orders s' = active_buy_orders s \<and>
           active_sell_orders s' = active_sell_orders s \<and>
           trade_history s' = trade_history s"
proof (cases "short_position s > 0")
  case False
  then show ?thesis by (simp add: force_close_short_def)
next
  case True
  let ?pnl = "dmul (short_position s) (dsub (short_entry_price s) price)"
  let ?fee = "dmul (dmul (short_position s) price) rate"
  let ?s0 = "s\<lparr>balance := dadd (balance s) (dsub ?pnl ?fee)\<rparr>"
  have safe0: "rebate_safe ?s0 t = rebate_safe s t" for t by (rule rebate_safe_cong) simp_all
  from charge_fee_full[of ?s0 ts ?fee] safe0 assms obtain s1 where
    s1: "charge_fee ?s0 ?fee ts = Inr s1" "rebate_frame ?s0 s1"
        "total_fees_paid s1 = dadd (total_fees_paid ?s0) ?fee"
        "\<forall>ts'. rebate_safe ?s0 ts' \<longrightarrow> rebate_safe s1 ts'"
    by blast
  let ?s' = "s1\<lparr>short_position := 0, short_entry_price := 0\<rparr>"
  have e: "force_close_short s price rate ts = Inr ?s'"
    using True s1(1) by (simp add: force_close_short_def Let_def)
  have safe: "\<forall>ts'. rebate_safe s ts' \<longrightarrow> rebate_safe ?s' ts'"
  proof (intro allI impI)
    fix t assume "rebate_safe s t"
    then have "rebate_safe s1 t" using s1(4) safe0 by blast
    moreover have "rebate_safe ?s' t = rebate_safe s1 t" by (rule rebate_safe_cong) simp_all
    ultimately show "rebate_safe ?s' t" by simp
  qed
  show ?thesis
    apply (rule exI[of _ ?s'])
    using e safe s1(2,3) True by (simp add: rebate_frame_def)
qed

text \<open>
  C1. For a state with non-negative quantities (and dates the rebate bookkeeping accepts),
  \<open>check_and_handle_liquidation\<close> returns True exactly when a position is non-zero and
  \<open>0 < equity \<le> maintenance margin\<close>, with equity = balance + unrealised profit. When it
  returns True both quantities are 0, the taker fee of each closed position at the mark price
  has been added to the fees paid, one liquidation event (timestamp, equity, mark price) has
  been appended, no order rests and the balance is 0. When it returns False the state is
  unchanged.
\<close>

theorem check_and_handle_liquidation_spec:
  assumes "positions_nonneg s" "rebate_safe s ts"
  shows "\<exists>s' liquidated.
           check_and_handle_liquidation s ts = Inr (s', liquidated) \<and>
           liquidated = liquidation_due s \<and>
           get_equity s = dadd (balance s) (get_unrealized_pnl s) \<and>
           (if liquidated
            then long_position s' = 0 \<and> short_position s' = 0 \<and>
                 total_fees_paid s' =
                   (let paid = (if long_position s > 0
                                then dadd (total_fees_paid s)
                                       (dmul (dmul (long_position s) (current_price s)) (taker_fee s))
                                else total_fees_paid s)
                    in if short_position s > 0
                       then dadd paid (dmul (dmul (short_position s) (current_price s)) (taker_fee s))
                       else paid) \<and>
                 liquidation_events s' = liquidation_events s @
                   [\<lparr>liq_timestamp = ts, liq_equity = get_equity s, liq_price = current_price s\<rparr>] \<and>
                 active_buy_orders s' = [] \<and> active_sell_orders s' = [] \<and>
                 trade_history s' = trade_history s \<and>
                 balance s' = 0
            else s' = s)"
proof (cases "liquidation_due s")
  case False
  then have "check_and_handle_liquidation s ts = Inr (s, False)"
    by (auto simp: check_and_handle_liquidation_def liquidation_due_def Let_def)
  then show ?thesis
    apply (intro exI[of _ s] exI[of _ False])
    using False by (simp add: get_equity_def)
next
  case True
  then have c: "\<not> (long_position s = 0 \<and> short_position s = 0)"
    "get_equity s \<le> get_maintenance_margin s \<and> get_equity s > 0"
    by (auto simp: liquidation_due_def)
  let ?s1 = "s\<lparr>liquidation_events := liquidation_events s @
                  [\<lparr>liq_timestamp = ts, liq_equity = get_equity s, liq_price = current_price s\<rparr>],
                active_buy_orders := [], active_sell_orders := []\<rparr>"
  have safe1: "rebate_safe ?s1 t = rebate_safe s t" for t by (rule rebate_safe_cong) simp_all
  from force_close_long_result[of ?s1 ts "current_price s" "taker_fee s"] safe1 assms(2)
  obtain s2 where
    s2: "force_close_long ?s1 (current_price s) (taker_fee s) ts = Inr s2"
        "\<forall>ts'. rebate_safe ?s1 ts' \<longrightarrow> rebate_safe s2 ts'"
        "long_position s2 = (if long_position s > 0 then 0 else long_position s)"
        "short_position s2 = short_position s"
        "total_fees_paid s2 =
             (if long_position s > 0
              then dadd (total_fees_paid s) (dmul (dmul (long_position s) (current_price s)) (taker_fee s))
              else total_fees_paid s)"
        "liquidation_events s2 = liquidation_events ?s1"
        "active_buy_orders s2 = []" "active_sell_orders s2 = []"
        "trade_history s2 = trade_history s"
    by auto
  have safe2: "rebate_safe s2 ts" using s2(2) safe1 assms(2) by blast
  from force_close_short_result[OF safe2, of "current_price s" "taker_fee s"]
  obtain s3 where
    s3: "force_close_short s2 (current_price s) (taker_fee s) ts = Inr s3"
        "short_position s3 = (if short_position s2 > 0 then 0 else short_position s2)"
        "long_position s3 = long_position s2"
        "total_fees_paid s3 =
             (if short_position s2 > 0
              then dadd (total_fees_paid s2) (dmul (dmul (short_position s2) (current_price s)) (taker_fee s))
              else total_fees_paid s2)"
        "liquidation_events s3 = liquidation_events s2"
        "active_buy_orders s3 = active_buy_orders s2" "active_sell_orders s3 = active_sell_orders s2"
        "trade_history s3 = trade_history s2"
    by auto
  have e: "check_and_handle_liquidation s ts = Inr (s3\<lparr>balance := 0\<rparr>, True)"
    using c s2(1) s3(1) by (simp add: check_and_handle_liquidation_def Let_def)
  have nn: "0 \<le> long_position s" "0 \<le> short_position s"
    using assms(1) by (simp_all add: positions_nonneg_def)
  have z: "long_position s3 = 0" "short_position s3 = 0"
    using s2(3,4) s3(2,3) nn by (simp_all add: not_less)
  show ?thesis
    apply (rule exI[of _ "s3\<lparr>balance := 0\<rparr>"], rule exI[of _ True])
    using e True z s2(4-9) s3(4-8) by (simp add: get_equity_def Let_def)
qed

theorem check_and_handle_liquidation_witness:
  "positions_nonneg liquidation_example \<and> rebate_safe liquidation_example 60 \<and>
   liquidation_due liquidation_example \<and>
   (\<exists>s'. check_and_handle_liquidation liquidation_example 60 = Inr (s', True) \<and>
         balance s' = 0 \<and> long_position s' = 0 \<and> short_position s' = 0 \<and>
         active_buy_orders s' = [] \<and> active_sell_orders s' = [] \<and>
         liquidation_events s' =
           [\<lparr>liq_timestamp = 60, liq_equity = 9, liq_price = 2309\<rparr>])"
proof -
  have h1: "positions_nonneg liquidation_example" by code_simp
  have h2: "rebate_safe liquidation_example 60" by code_simp
  have d: "liquidation_due liquidation_example" by code_simp
  have v: "get_equity liquidation_example = 9" "current_price liquidation_example = 2309"
    "liquidation_events liquidation_example = []"
    by code_simp+
  from check_and_handle_liquidation_spec[OF h1 h2] obtain s' liquidated where
    r: "check_and_handle_liquidation liquidation_example 60 = Inr (s', liquidated)"
       "liquidated = liquidation_due liquidation_example"
       "if liquidated
        then long_position s' = 0 \<and> short_position s' = 0 \<and>
             total_fees_paid s' =
               (let paid = (if long_position liquidation_example > 0
                            then dadd (total_fees_paid liquidation_example)
                                   (dmul (dmul (long_position liquidation_example)
                                            (current_price liquidation_example))
                                      (taker_fee liquidation_example))
                            else total_fees_paid liquidation_example)
                in if short_position liquidation_example > 0
                   then dadd paid (dmul (dmul (short_position liquidation_example)
                                           (current_price liquidation_example))
                                     (taker_fee liquidation_example))
                   else paid) \<and>
             liquidation_events s' = liquidation_events liquidation_example @
               [\<lparr>liq_timestamp = 60, liq_equity = get_equity liquidation_example,
                 liq_price = current_price liquidation_example\<rparr>] \<and>
             active_buy_orders s' = [] \<and> active_sell_orders s' = [] \<and>
             trade_history s' = trade_history liquidation_example \<and>
             balance s' = 0
        else s' = liquidation_example"
    by blast
  have l: "liquidated" using r(2) d by simp
  show ?thesis
    using h1 h2 d r(1) r(3) l v by auto
qed

subsection \<open>Order matching\<close>




end
